theory Spec2Isabelle
  imports Main "HOL-Library.Multiset" "HOL-Library.AList"
begin

section \<open>Strings as the program reads them\<close>

text \<open>
  A JavaScript string is modelled as a \<^typ>\<open>string\<close> (a list of characters); its
  \<open>length\<close> is the length of the list and \<open>slice(n)\<close> is \<^const>\<open>drop\<close>.
  The helpers below are the library calls the sources make on strings and arrays.
\<close>

text \<open>\<open>s.split(c)\<close> for a one-character separator: never empty, \<open>''.split(c)\<close> is \<open>['']\<close>.\<close>

fun split_on :: "char \<Rightarrow> string \<Rightarrow> string list" where
  "split_on c [] = [[]]"
| "split_on c (x # xs) =
     (if x = c then [] # split_on c xs
      else (case split_on c xs of
              [] \<Rightarrow> [[x]]
            | w # ws \<Rightarrow> (x # w) # ws))"

text \<open>\<open>xs.join(sep)\<close>.\<close>

fun join_with :: "string \<Rightarrow> string list \<Rightarrow> string" where
  "join_with sep [] = []"
| "join_with sep [x] = x"
| "join_with sep (x # y # ys) = x @ sep @ join_with sep (y # ys)"

text \<open>\<open>xs.slice(i, j)\<close> for \<open>0 \<le> i\<close>, \<open>0 \<le> j\<close>.\<close>

definition slice :: "'a list \<Rightarrow> nat \<Rightarrow> nat \<Rightarrow> 'a list" where
  "slice xs i j = take (j - i) (drop i xs)"

text \<open>
  Characters are the code units below 256. \<open>s.trim()\<close> removes the white space of
  ECMAScript from both ends; below 256 that is tab, line feed, vertical tab, form feed,
  carriage return, space and the no-break space.
\<close>

definition is_space :: "char \<Rightarrow> bool" where
  "is_space c = (c \<in> set [CHR 0x09, CHR 0x0A, CHR 0x0B, CHR 0x0C, CHR 0x0D, CHR 0x20, CHR 0xA0])"

definition trim :: "string \<Rightarrow> string" where
  "trim s = rev (dropWhile is_space (rev (dropWhile is_space s)))"

text \<open>\<open>s.startsWith(p)\<close>, \<open>s.endsWith(p)\<close> and \<open>s.includes(p)\<close>.\<close>

fun startsWith :: "string \<Rightarrow> string \<Rightarrow> bool" where
  "startsWith s [] = True"
| "startsWith [] (p # ps) = False"
| "startsWith (c # cs) (p # ps) = (c = p \<and> startsWith cs ps)"

definition endsWith :: "string \<Rightarrow> string \<Rightarrow> bool" where
  "endsWith s p = startsWith (rev s) (rev p)"

fun str_includes :: "string \<Rightarrow> string \<Rightarrow> bool" where
  "str_includes [] p = (p = [])"
| "str_includes (c # cs) p = (startsWith (c # cs) p \<or> str_includes cs p)"

text \<open>\<open>s.replace(/a/g, b)\<close> for single characters.\<close>

definition replace_all :: "char \<Rightarrow> char \<Rightarrow> string \<Rightarrow> string" where
  "replace_all a b s = map (\<lambda>c. if c = a then b else c) s"

section \<open>Paths (\<open>path.join\<close>, \<open>path.basename\<close> of the POSIX flavour)\<close>

text \<open>
  \<open>normalizeString\<close> of the runtime, on the segments between separators: empty and \<open>.\<close>
  segments vanish, \<open>..\<close> removes the segment before it (or stays, above a relative root).
\<close>

fun normalizeString :: "bool \<Rightarrow> string list \<Rightarrow> string list \<Rightarrow> string list" where
  "normalizeString allowAboveRoot res [] = res"
| "normalizeString allowAboveRoot res (seg # segs) =
     (if seg = [] \<or> seg = ''.'' then normalizeString allowAboveRoot res segs
      else if seg = ''..'' then
        (if res \<noteq> [] \<and> last res \<noteq> ''..''
         then normalizeString allowAboveRoot (butlast res) segs
         else if allowAboveRoot then normalizeString allowAboveRoot (res @ [''..'']) segs
         else normalizeString allowAboveRoot res segs)
      else normalizeString allowAboveRoot (res @ [seg]) segs)"

definition path_normalize :: "string \<Rightarrow> string" where
  "path_normalize path =
     (if path = [] then ''.''
      else
        (let isAbsolute = (hd path = CHR ''/'');
             trailingSeparator = (last path = CHR ''/'');
             p = join_with ''/'' (normalizeString (\<not> isAbsolute) [] (split_on CHR ''/'' path))
         in if p = [] then (if isAbsolute then ''/'' else if trailingSeparator then ''./'' else ''.'')
            else (if isAbsolute then ''/'' else []) @ p @ (if trailingSeparator then ''/'' else [])))"

definition path_join :: "string list \<Rightarrow> string" where
  "path_join args =
     (let joined = join_with ''/'' (filter (\<lambda>a. a \<noteq> []) args)
      in if joined = [] then ''.'' else path_normalize joined)"

text \<open>\<open>basename(p, ext)\<close>: the last segment of \<open>p\<close> (trailing separators dropped), without
  \<open>ext\<close> when the segment ends with it and is longer.\<close>

definition basename :: "string \<Rightarrow> string \<Rightarrow> string" where
  "basename p ext =
     (let q = rev (dropWhile (\<lambda>c. c = CHR ''/'') (rev p));
          b = rev (takeWhile (\<lambda>c. c \<noteq> CHR ''/'') (rev q))
      in if endsWith b ext \<and> b \<noteq> ext then take (length b - length ext) b else b)"

section \<open>Errors\<close>

text \<open>
  What a call of the runtime throws: a system error with its code, or a syntax error of a
  parser. A function that can throw returns \<open>error + 'a\<close>. \<open>OutsideModel\<close> is not thrown by
  the program: it marks an input on which a library is not modelled (a regular expression
  beyond the fragment below), and nothing is stated about the program there.
\<close>

datatype error = SystemError string | SyntaxError | OutsideModel

section \<open>ClaudeAdapter.decodeDirName\<close>

text \<open>
  \<open>statSync(candidate)\<close> either returns or throws; the adapter only looks at which of
  the two happens, so the disk is the predicate \<open>ex\<close> of the paths on which it returns.
\<close>

text \<open>The inner \<open>for (let j = parts.length; j > i; j--)\<close>, entered at \<open>j\<close>: the first
  candidate that exists, with the index after its run.\<close>

fun find_run :: "(string \<Rightarrow> bool) \<Rightarrow> string list \<Rightarrow> string \<Rightarrow> nat \<Rightarrow> nat \<Rightarrow> (string \<times> nat) option" where
  "find_run ex parts path i 0 = None"
| "find_run ex parts path i (Suc j) =
     (if Suc j > i then
        (let candidate = path @ ''/'' @ join_with ''-'' (slice parts i (Suc j))
         in if ex candidate then Some (candidate, Suc j)
            else find_run ex parts path i j)
      else None)"

lemma find_run_bounds:
  "find_run ex parts path i j0 = Some (p, j) \<Longrightarrow> i < j \<and> j \<le> j0"
  by (induction j0) (auto simp: Let_def split: if_splits)

text \<open>The outer \<open>while (i < parts.length)\<close>.\<close>

function decode_loop :: "(string \<Rightarrow> bool) \<Rightarrow> string list \<Rightarrow> string \<Rightarrow> nat \<Rightarrow> string" where
  "decode_loop ex parts path i =
     (if i < length parts then
        (case find_run ex parts path i (length parts) of
           Some (candidate, j) \<Rightarrow> decode_loop ex parts candidate j
         | None \<Rightarrow> decode_loop ex parts (path @ ''/'' @ parts ! i) (Suc i))
      else path)"
  by pat_completeness auto
termination
proof (relation "measure (\<lambda>(ex, parts, path, i). length parts - i)")
  show "wf (measure (\<lambda>(ex, parts, path, i). length parts - i))"
    by simp
next
  fix ex :: "string \<Rightarrow> bool" and parts :: "string list" and path :: string and i :: nat
  assume "i < length parts"
  then show "((ex, parts, path @ ''/'' @ parts ! i, Suc i), (ex, parts, path, i))
      \<in> measure (\<lambda>(ex, parts, path, i). length parts - i)"
    by simp
next
  fix ex :: "string \<Rightarrow> bool" and parts :: "string list" and path :: string and i :: nat
    and x2 :: "string \<times> nat" and candidate :: string and j :: nat
  assume inside: "i < length parts"
    and "find_run ex parts path i (length parts) = Some x2"
    and "(candidate, j) = x2"
  then have "i < j \<and> j \<le> length parts"
    using find_run_bounds [of ex parts path i "length parts" candidate j] by simp
  then have "length parts - j < length parts - i"
    by arith
  then show "((ex, parts, candidate, j), (ex, parts, path, i))
      \<in> measure (\<lambda>(ex, parts, path, i). length parts - i)"
    by simp
qed

definition decodeDirName :: "(string \<Rightarrow> bool) \<Rightarrow> string \<Rightarrow> string" where
  "decodeDirName ex encoded =
     (case encoded of
        [] \<Rightarrow> map (\<lambda>c. if c = CHR ''-'' then CHR ''/'' else c) encoded
      | c # rest \<Rightarrow>
          if c \<noteq> CHR ''-'' then map (\<lambda>c. if c = CHR ''-'' then CHR ''/'' else c) encoded
          else decode_loop ex (split_on CHR ''-'' rest) [] 0)"

declare decode_loop.simps [simp del]

section \<open>ClaudeAdapter: polling a project's log units\<close>

text \<open>
  The adapter reads the agent's log store and never writes it. The disk is what the four
  calls it makes (\<open>existsSync\<close>, \<open>readdir\<close>, \<open>stat\<close>, \<open>readFile\<close>) answer; a poll over an
  unchanged log store is a poll on the same \<open>disk\<close>.
\<close>

record stats =
  mtimeMs :: int
  isDirectory :: bool

record disk =
  existsSync :: "string \<Rightarrow> bool"
  readdir :: "string \<Rightarrow> error + string list"
  stat :: "string \<Rightarrow> error + stats"
  readFile :: "string \<Rightarrow> error + string"

text \<open>\<open>process.env.HOME || process.env.USERPROFILE || '~'\<close>: an unset or empty variable is
  falsy.\<close>

record process_env =
  HOME :: "string option"
  USERPROFILE :: "string option"

definition home_of :: "process_env \<Rightarrow> string" where
  "home_of env =
     (case HOME env of
        Some h \<Rightarrow> if h \<noteq> [] then h
                  else (case USERPROFILE env of Some u \<Rightarrow> if u \<noteq> [] then u else ''~'' | None \<Rightarrow> ''~'')
      | None \<Rightarrow> (case USERPROFILE env of Some u \<Rightarrow> if u \<noteq> [] then u else ''~'' | None \<Rightarrow> ''~''))"

definition findProjectDir :: "disk \<Rightarrow> process_env \<Rightarrow> string \<Rightarrow> string option" where
  "findProjectDir d env cwd =
     (let projectsDir = path_join [home_of env, ''.claude'', ''projects'']
      in if \<not> existsSync d projectsDir then None
         else
           (let encoded = replace_all CHR ''/'' CHR ''-'' cwd;
                candidate = path_join [projectsDir, encoded]
            in if existsSync d candidate then Some candidate else None))"

text \<open>The adapter instance: \<open>lastOffsets\<close>, a last-read offset per log unit path.\<close>

record claude_adapter =
  lastOffsets :: "string \<rightharpoonup> nat"

text \<open>
  \<open>readNewLines\<close>. The decoder of one line, \<open>parseClaudeLine\<close>, is the parameter
  \<open>parseLine\<close>: it never throws (its body is one \<open>try\<close>) and the offsets do not depend on
  it. The result is what the call returns or throws, and the adapter after it.
\<close>

definition readNewLines ::
  "(string \<Rightarrow> string \<Rightarrow> 'ev list) \<Rightarrow> disk \<Rightarrow> claude_adapter \<Rightarrow> string \<Rightarrow> string
     \<Rightarrow> (error + 'ev list) \<times> claude_adapter" where
  "readNewLines parseLine d a filePath filename =
     (let lastOffset = (case lastOffsets a filePath of Some n \<Rightarrow> n | None \<Rightarrow> 0)
      in case readFile d filePath of
           Inl e \<Rightarrow> (Inl e, a)
         | Inr content \<Rightarrow>
             if length content \<le> lastOffset then (Inr [], a)
             else
               (let newContent = drop lastOffset content;
                    a' = a\<lparr>lastOffsets := (lastOffsets a)(filePath \<mapsto> length content)\<rparr>;
                    sessionId = basename filename ''.jsonl''
                in (Inr (concat (map (\<lambda>line. parseLine line sessionId)
                                   (filter (\<lambda>line. trim line \<noteq> []) (split_on CHR 0x0A newContent)))),
                    a')))"

text \<open>The loop of \<open>poll\<close> over the \<open>.jsonl\<close> files of the directory, inside its \<open>try\<close>: a throw
  of \<open>stat\<close> or of \<open>readNewLines\<close> ends the loop, and \<open>poll\<close> returns the events pushed so
  far.\<close>

fun poll_files ::
  "(string \<Rightarrow> string \<Rightarrow> 'ev list) \<Rightarrow> disk \<Rightarrow> string \<Rightarrow> int \<Rightarrow> string list \<Rightarrow> 'ev list
     \<Rightarrow> claude_adapter \<Rightarrow> 'ev list \<times> claude_adapter" where
  "poll_files parseLine d dir since [] events a = (events, a)"
| "poll_files parseLine d dir since (file # files) events a =
     (let filePath = path_join [dir, file]
      in case stat d filePath of
           Inl e \<Rightarrow> (events, a)
         | Inr st \<Rightarrow>
             if mtimeMs st < since then poll_files parseLine d dir since files events a
             else
               (case readNewLines parseLine d a filePath file of
                  (Inl e, a') \<Rightarrow> (events, a')
                | (Inr newEvents, a') \<Rightarrow>
                    poll_files parseLine d dir since files (events @ newEvents) a'))"

definition poll ::
  "(string \<Rightarrow> string \<Rightarrow> 'ev list) \<Rightarrow> disk \<Rightarrow> process_env \<Rightarrow> claude_adapter \<Rightarrow> string \<Rightarrow> int
     \<Rightarrow> 'ev list \<times> claude_adapter" where
  "poll parseLine d env a cwd since =
     (case findProjectDir d env cwd of
        None \<Rightarrow> ([], a)
      | Some dir \<Rightarrow>
          (case readdir d dir of
             Inl e \<Rightarrow> ([], a)
           | Inr files \<Rightarrow>
               poll_files parseLine d dir since
                 (filter (\<lambda>f. endsWith f ''.jsonl'') files) [] a))"

section \<open>Regular expressions: the fragment the ignore rules compile to\<close>

text \<open>
  \<open>new RegExp(source)\<close> and \<open>regex.test(path)\<close> for sources built from literal characters,
  \<open>.\<close>, \<open>[^/]\<close>, an escaped syntax character, \<open>^\<close>, \<open>$\<close>, groups \<open>(?:...)\<close>, \<open>|\<close> and the
  quantifiers \<open>*\<close>, \<open>+\<close>, \<open>?\<close>. Without flags, \<open>^\<close> and \<open>$\<close> are the ends of the input and
  \<open>.\<close> is any character but a line terminator.
\<close>

datatype rx =
    Lit char
  | Dot
  | NotSlash
  | Bol
  | Eol
  | Eps
  | Seq rx rx
  | Alt rx rx
  | Star rx
  | Plus rx
  | Opt rx

datatype tok =
    TOpen | TClose | TBar | TStar | TPlus | TQuest | TDot | TBol | TEol | TNotSlash | TLit char

definition is_syntax_char :: "char \<Rightarrow> bool" where
  "is_syntax_char c = (c \<in> set (CHR 0x5C # ''^$.*+?()[]{}|/''))"

fun rx_tokens :: "string \<Rightarrow> error + tok list" where
  "rx_tokens [] = Inr []"
| "rx_tokens (c # cs) =
     (if c = CHR ''('' then
        (if startsWith cs ''?:'' then map_sum id (Cons TOpen) (rx_tokens (drop 2 cs))
         else Inl OutsideModel)
      else if c = CHR ''['' then
        (if startsWith cs ''^/]'' then map_sum id (Cons TNotSlash) (rx_tokens (drop 3 cs))
         else Inl OutsideModel)
      else if c = CHR 0x5C then
        (case cs of
           [] \<Rightarrow> Inl SyntaxError
         | e # rest \<Rightarrow>
             if is_syntax_char e then map_sum id (Cons (TLit e)) (rx_tokens rest)
             else Inl OutsideModel)
      else if c = CHR '']'' \<or> c = CHR ''{'' \<or> c = CHR ''}'' then Inl OutsideModel
      else map_sum id
             (Cons (if c = CHR '')'' then TClose
                    else if c = CHR ''|'' then TBar
                    else if c = CHR ''*'' then TStar
                    else if c = CHR ''+'' then TPlus
                    else if c = CHR ''?'' then TQuest
                    else if c = CHR ''.'' then TDot
                    else if c = CHR ''^'' then TBol
                    else if c = CHR ''$'' then TEol
                    else TLit c))
             (rx_tokens cs))"

text \<open>A group under construction: its finished alternatives and the atoms of the current
  one, both latest first.\<close>

type_synonym frame = "rx list \<times> rx list"

fun mk_seq :: "rx list \<Rightarrow> rx" where
  "mk_seq [] = Eps"
| "mk_seq (a # as) = Seq a (mk_seq as)"

fun mk_alt :: "rx list \<Rightarrow> rx" where
  "mk_alt [] = Eps"
| "mk_alt [a] = a"
| "mk_alt (a # b # bs) = Alt a (mk_alt (b # bs))"

definition close_frame :: "frame \<Rightarrow> rx" where
  "close_frame fr = mk_alt (rev (mk_seq (rev (snd fr)) # fst fr))"

text \<open>A quantifier applies to the atom before it. After nothing, after an assertion or after
  another quantifier there is nothing to repeat (a \<open>?\<close> after a quantifier makes it lazy, which
  is outside the fragment).\<close>

definition quantify :: "(rx \<Rightarrow> rx) \<Rightarrow> bool \<Rightarrow> rx list \<Rightarrow> error + rx list" where
  "quantify q lazy cur =
     (case cur of
        [] \<Rightarrow> Inl SyntaxError
      | a # as \<Rightarrow>
          (case a of
             Bol \<Rightarrow> Inl SyntaxError
           | Eol \<Rightarrow> Inl SyntaxError
           | Star b \<Rightarrow> Inl (if lazy then OutsideModel else SyntaxError)
           | Plus b \<Rightarrow> Inl (if lazy then OutsideModel else SyntaxError)
           | Opt b \<Rightarrow> Inl (if lazy then OutsideModel else SyntaxError)
           | _ \<Rightarrow> Inr (q a # as)))"

fun rx_build :: "frame \<Rightarrow> frame list \<Rightarrow> tok list \<Rightarrow> error + rx" where
  "rx_build fr stack [] = (if stack = [] then Inr (close_frame fr) else Inl SyntaxError)"
| "rx_build fr stack (t # ts) =
     (case t of
        TOpen \<Rightarrow> rx_build ([], []) (fr # stack) ts
      | TClose \<Rightarrow>
          (case stack of
             [] \<Rightarrow> Inl SyntaxError
           | (alts, cur) # below \<Rightarrow> rx_build (alts, close_frame fr # cur) below ts)
      | TBar \<Rightarrow> rx_build (mk_seq (rev (snd fr)) # fst fr, []) stack ts
      | TStar \<Rightarrow>
          (case quantify Star False (snd fr) of
             Inl e \<Rightarrow> Inl e | Inr cur \<Rightarrow> rx_build (fst fr, cur) stack ts)
      | TPlus \<Rightarrow>
          (case quantify Plus False (snd fr) of
             Inl e \<Rightarrow> Inl e | Inr cur \<Rightarrow> rx_build (fst fr, cur) stack ts)
      | TQuest \<Rightarrow>
          (case quantify Opt True (snd fr) of
             Inl e \<Rightarrow> Inl e | Inr cur \<Rightarrow> rx_build (fst fr, cur) stack ts)
      | TDot \<Rightarrow> rx_build (fst fr, Dot # snd fr) stack ts
      | TBol \<Rightarrow> rx_build (fst fr, Bol # snd fr) stack ts
      | TEol \<Rightarrow> rx_build (fst fr, Eol # snd fr) stack ts
      | TNotSlash \<Rightarrow> rx_build (fst fr, NotSlash # snd fr) stack ts
      | TLit c \<Rightarrow> rx_build (fst fr, Lit c # snd fr) stack ts)"

definition RegExp_new :: "string \<Rightarrow> error + rx" where
  "RegExp_new source =
     (case rx_tokens source of
        Inl e \<Rightarrow> Inl e
      | Inr ts \<Rightarrow> rx_build ([], []) [] ts)"

text \<open>
  Matching, by positions: \<open>rx_ends r s ps\<close> are the positions of \<open>s\<close> where a match of \<open>r\<close>
  that starts at one of the positions \<open>ps\<close> can end. A repetition is the closure of its body;
  \<open>length s + 1\<close> rounds reach every position. \<open>test\<close> looks for a match from any position.
\<close>

definition is_line_terminator :: "char \<Rightarrow> bool" where
  "is_line_terminator c = (c = CHR 0x0A \<or> c = CHR 0x0D)"

fun closure :: "(nat list \<Rightarrow> nat list) \<Rightarrow> nat \<Rightarrow> nat list \<Rightarrow> nat list" where
  "closure f 0 ps = ps"
| "closure f (Suc n) ps = closure f n (remdups (ps @ f ps))"

primrec rx_ends :: "rx \<Rightarrow> string \<Rightarrow> nat list \<Rightarrow> nat list" where
  "rx_ends (Lit c) s ps = map Suc (filter (\<lambda>p. p < length s \<and> s ! p = c) ps)"
| "rx_ends Dot s ps = map Suc (filter (\<lambda>p. p < length s \<and> \<not> is_line_terminator (s ! p)) ps)"
| "rx_ends NotSlash s ps = map Suc (filter (\<lambda>p. p < length s \<and> s ! p \<noteq> CHR ''/'') ps)"
| "rx_ends Bol s ps = filter (\<lambda>p. p = 0) ps"
| "rx_ends Eol s ps = filter (\<lambda>p. p = length s) ps"
| "rx_ends Eps s ps = ps"
| "rx_ends (Seq a b) s ps = rx_ends b s (rx_ends a s ps)"
| "rx_ends (Alt a b) s ps = remdups (rx_ends a s ps @ rx_ends b s ps)"
| "rx_ends (Star a) s ps = closure (rx_ends a s) (Suc (length s)) ps"
| "rx_ends (Plus a) s ps = closure (rx_ends a s) (Suc (length s)) (rx_ends a s ps)"
| "rx_ends (Opt a) s ps = remdups (ps @ rx_ends a s ps)"

definition RegExp_test :: "rx \<Rightarrow> string \<Rightarrow> bool" where
  "RegExp_test r s = (rx_ends r s [0..<Suc (length s)] \<noteq> [])"

section \<open>The ignore matcher\<close>

record IgnorePattern =
  negated :: bool
  dirOnly :: bool
  anchored :: bool
  regex :: rx

text \<open>The loop of \<open>globToRegex\<close> over the pattern: the source text of the expression.\<close>

fun glob_source :: "string \<Rightarrow> string" where
  "glob_source [] = []"
| "glob_source (ch # rest) =
     (if ch = CHR ''*'' \<and> startsWith rest ''*'' then
        (if startsWith (drop 1 rest) ''/'' then ''(?:.+/)?'' @ glob_source (drop 2 rest)
         else ''.*'' @ glob_source (drop 1 rest))
      else if ch = CHR ''*'' then ''[^/]*'' @ glob_source rest
      else if ch = CHR ''?'' then ''[^/]'' @ glob_source rest
      else if ch = CHR ''.'' then [CHR 0x5C, CHR ''.''] @ glob_source rest
      else ch # glob_source rest)"

definition globToRegex :: "string \<Rightarrow> bool \<Rightarrow> error + rx" where
  "globToRegex pattern anch =
     (if anch then RegExp_new (''^'' @ glob_source pattern @ ''(?:/|$)'')
      else RegExp_new (''(?:^|/)'' @ glob_source pattern @ ''(?:/|$)''))"

definition parsePattern :: "string \<Rightarrow> error + IgnorePattern" where
  "parsePattern raw =
     (let neg = startsWith raw ''!'';
          pattern1 = (if neg then drop 1 raw else raw);
          dir = endsWith pattern1 ''/'';
          pattern2 = (if dir then butlast pattern1 else pattern1);
          anch = startsWith pattern2 ''/'';
          pattern3 = (if anch then drop 1 pattern2 else pattern2)
      in case globToRegex pattern3 anch of
           Inl e \<Rightarrow> Inl e
         | Inr r \<Rightarrow> Inr \<lparr> negated = neg, dirOnly = dir, anchored = anch, regex = r \<rparr>)"

definition matchPattern :: "string \<Rightarrow> IgnorePattern \<Rightarrow> bool" where
  "matchPattern path pattern = RegExp_test (regex pattern) path"

definition HARDCODED_IGNORES :: "string list" where
  "HARDCODED_IGNORES = [''.slagent/'', ''.git/'', ''node_modules/'', ''.DS_Store'']"

text \<open>\<open>for (const raw of ...) patterns.push(parsePattern(raw))\<close>: the patterns pushed, and
  what stopped the loop, if anything did.\<close>

fun push_patterns :: "string list \<Rightarrow> IgnorePattern list \<Rightarrow> error option \<times> IgnorePattern list" where
  "push_patterns [] patterns = (None, patterns)"
| "push_patterns (raw # raws) patterns =
     (case parsePattern raw of
        Inl e \<Rightarrow> (Some e, patterns)
      | Inr p \<Rightarrow> push_patterns raws (patterns @ [p]))"

text \<open>The lines of an exclude file that are rules: trimmed, not empty, not a comment.\<close>

definition rule_lines :: "string \<Rightarrow> string list" where
  "rule_lines content =
     filter (\<lambda>trimmed. trimmed \<noteq> [] \<and> \<not> startsWith trimmed ''#'')
       (map trim (split_on CHR 0x0A content))"

text \<open>The loop over the exclude files. A file that cannot be read is skipped; a rule that
  does not compile ends its file (the \<open>catch\<close> around the file), with the rules pushed
  before it kept.\<close>

fun push_files :: "disk \<Rightarrow> string list \<Rightarrow> IgnorePattern list \<Rightarrow> error + IgnorePattern list" where
  "push_files d [] patterns = Inr patterns"
| "push_files d (filepath # filepaths) patterns =
     (case readFile d filepath of
        Inl e \<Rightarrow> push_files d filepaths patterns
      | Inr content \<Rightarrow>
          (case push_patterns (rule_lines content) patterns of
             (Some OutsideModel, patterns') \<Rightarrow> Inl OutsideModel
           | (r, patterns') \<Rightarrow> push_files d filepaths patterns'))"

definition compile_rules :: "disk \<Rightarrow> string \<Rightarrow> error + IgnorePattern list" where
  "compile_rules d cwd =
     (case push_patterns HARDCODED_IGNORES [] of
        (Some e, patterns) \<Rightarrow> Inl e
      | (None, patterns) \<Rightarrow>
          push_files d
            [path_join [cwd, ''.gitignore''], path_join [cwd, ''.git'', ''info'', ''exclude'']]
            patterns)"

text \<open>The function \<open>createIgnoreMatcher\<close> returns: the loop over the rules.\<close>

fun ignored_by :: "IgnorePattern list \<Rightarrow> bool \<Rightarrow> string \<Rightarrow> bool" where
  "ignored_by [] ignored relativePath = ignored"
| "ignored_by (pattern # patterns) ignored relativePath =
     (if negated pattern then
        (if matchPattern relativePath pattern then ignored_by patterns False relativePath
         else ignored_by patterns ignored relativePath)
      else
        (if matchPattern relativePath pattern then ignored_by patterns True relativePath
         else ignored_by patterns ignored relativePath))"

definition createIgnoreMatcher :: "disk \<Rightarrow> string \<Rightarrow> error + (string \<Rightarrow> bool)" where
  "createIgnoreMatcher d cwd =
     (case compile_rules d cwd of
        Inl e \<Rightarrow> Inl e
      | Inr patterns \<Rightarrow> Inr (ignored_by patterns False))"

section \<open>Canonical events and session summaries\<close>

text \<open>
  The tagged union \<open>AdapterEvent\<close> of \<open>types.ts\<close>, one constructor per interface with the
  fields in the order of the interface (the \<open>type\<close> tag is the constructor). Numbers are
  the integers the adapters and the clock produce; an optional field is an \<open>option\<close>.
\<close>

datatype signal = manual_edit | revert | fixup | long_pause | abort

datatype AdapterEvent =
    SessionStartEvent string string int "string option"
      \<comment> \<open>sessionId, agent, timestamp, prompt?\<close>
  | SessionEndEvent string int "int option"
      \<comment> \<open>sessionId, timestamp, exitCode?\<close>
  | FileEditEvent string int string int int "string option"
      \<comment> \<open>sessionId, timestamp, path, linesAdded, linesRemoved, tool?\<close>
  | CommandRunEvent string int string int "string option" "string option"
      \<comment> \<open>sessionId, timestamp, command, exitCode, stdout?, stderr?\<close>
  | TestResultEvent string int string int int int "string option"
      \<comment> \<open>sessionId, timestamp, framework, passed, failed, skipped, raw?\<close>
  | UserInterventionEvent string int signal "string option"
      \<comment> \<open>sessionId, timestamp, signal, detail?\<close>

fun sessionId_of :: "AdapterEvent \<Rightarrow> string" where
  "sessionId_of (SessionStartEvent sid agent ts prompt) = sid"
| "sessionId_of (SessionEndEvent sid ts exitCode) = sid"
| "sessionId_of (FileEditEvent sid ts path added removed tool) = sid"
| "sessionId_of (CommandRunEvent sid ts command exitCode out err) = sid"
| "sessionId_of (TestResultEvent sid ts framework passed failed skipped raw) = sid"
| "sessionId_of (UserInterventionEvent sid ts sig detail) = sid"

fun timestamp_of :: "AdapterEvent \<Rightarrow> int" where
  "timestamp_of (SessionStartEvent sid agent ts prompt) = ts"
| "timestamp_of (SessionEndEvent sid ts exitCode) = ts"
| "timestamp_of (FileEditEvent sid ts path added removed tool) = ts"
| "timestamp_of (CommandRunEvent sid ts command exitCode out err) = ts"
| "timestamp_of (TestResultEvent sid ts framework passed failed skipped raw) = ts"
| "timestamp_of (UserInterventionEvent sid ts sig detail) = ts"

text \<open>\<open>e.sessionId = sid\<close> and \<open>{ ...e, sessionId: sid }\<close>.\<close>

fun with_sessionId :: "string \<Rightarrow> AdapterEvent \<Rightarrow> AdapterEvent" where
  "with_sessionId s (SessionStartEvent sid agent ts prompt) = SessionStartEvent s agent ts prompt"
| "with_sessionId s (SessionEndEvent sid ts exitCode) = SessionEndEvent s ts exitCode"
| "with_sessionId s (FileEditEvent sid ts path added removed tool) =
     FileEditEvent s ts path added removed tool"
| "with_sessionId s (CommandRunEvent sid ts command exitCode out err) =
     CommandRunEvent s ts command exitCode out err"
| "with_sessionId s (TestResultEvent sid ts framework passed failed skipped raw) =
     TestResultEvent s ts framework passed failed skipped raw"
| "with_sessionId s (UserInterventionEvent sid ts sig detail) = UserInterventionEvent s ts sig detail"

datatype SessionOutcome = success | failure | partial | unknown

record SessionSummary =
  id' :: string
  agent :: string
  prompt :: string
  projectCwd :: "string option"
  startedAt :: int
  endedAt :: int
  outcome :: SessionOutcome
  filesChanged :: "string list"
  interventions :: int
  analyzed :: bool
  reviewedEventCount :: "int option"

section \<open>JSON text\<close>

text \<open>
  \<open>JSON.stringify\<close> and \<open>JSON.parse\<close> on the values the store writes: objects in key order,
  arrays, strings, integers, booleans and \<open>null\<close>. A number with a fraction or an exponent
  and a \<open>\u\<close> escape of a code unit above 255 are outside the model.
\<close>

datatype json =
    JNull
  | JBool bool
  | JNum int
  | JStr string
  | JArr "json list"
  | JObj "(string \<times> json) list"

subsection \<open>Numbers\<close>

definition digit_char :: "nat \<Rightarrow> char" where
  "digit_char n = char_of (48 + n)"

function show_nat :: "nat \<Rightarrow> string" where
  "show_nat n = (if n < 10 then [digit_char n] else show_nat (n div 10) @ [digit_char (n mod 10)])"
  by pat_completeness auto
termination
  by (relation "measure id") auto

declare show_nat.simps [simp del]

definition show_int :: "int \<Rightarrow> string" where
  "show_int i = (if i < 0 then CHR ''-'' # show_nat (nat (- i)) else show_nat (nat i))"

definition is_digit :: "char \<Rightarrow> bool" where
  "is_digit c = (48 \<le> (of_char c :: nat) \<and> (of_char c :: nat) \<le> 57)"

fun digits_val :: "nat \<Rightarrow> string \<Rightarrow> nat \<times> string" where
  "digits_val acc [] = (acc, [])"
| "digits_val acc (c # cs) =
     (if is_digit c then digits_val (acc * 10 + (of_char c - 48)) cs else (acc, c # cs))"

text \<open>An integer literal: \<open>-\<close>?, then \<open>0\<close> or a digit sequence without a leading zero.\<close>

definition parse_nat_lit :: "string \<Rightarrow> error + (nat \<times> string)" where
  "parse_nat_lit s =
     (case s of
        [] \<Rightarrow> Inl SyntaxError
      | c # cs \<Rightarrow>
          if \<not> is_digit c then Inl SyntaxError
          else if c = CHR ''0'' \<and> cs \<noteq> [] \<and> is_digit (hd cs) then Inl SyntaxError
          else
            (case digits_val 0 s of
               (n, rest) \<Rightarrow>
                 if rest \<noteq> [] \<and> hd rest \<in> set ''.eE'' then Inl OutsideModel
                 else Inr (n, rest)))"

definition parse_number :: "string \<Rightarrow> error + (int \<times> string)" where
  "parse_number s =
     (case s of
        [] \<Rightarrow> Inl SyntaxError
      | c # cs \<Rightarrow>
          if c = CHR ''-'' then
            (case parse_nat_lit cs of Inl e \<Rightarrow> Inl e | Inr (n, rest) \<Rightarrow> Inr (- int n, rest))
          else
            (case parse_nat_lit s of Inl e \<Rightarrow> Inl e | Inr (n, rest) \<Rightarrow> Inr (int n, rest)))"

subsection \<open>Strings\<close>

definition hex_char :: "nat \<Rightarrow> char" where
  "hex_char n = (if n < 10 then char_of (48 + n) else char_of (87 + n))"

definition hex_val :: "char \<Rightarrow> nat option" where
  "hex_val c =
     (let n = (of_char c :: nat)
      in if 48 \<le> n \<and> n \<le> 57 then Some (n - 48)
         else if 97 \<le> n \<and> n \<le> 102 then Some (n - 87)
         else if 65 \<le> n \<and> n \<le> 70 then Some (n - 55)
         else None)"

text \<open>\<open>QuoteJSONString\<close>: the quotation mark, the backslash and the control characters are
  escaped, the latter by their short form or as \<open>\u00XX\<close>.\<close>

definition escape_char :: "char \<Rightarrow> string" where
  "escape_char c =
     (if c = CHR 0x22 then [CHR 0x5C, CHR 0x22]
      else if c = CHR 0x5C then [CHR 0x5C, CHR 0x5C]
      else if c = CHR 0x08 then [CHR 0x5C, CHR ''b'']
      else if c = CHR 0x09 then [CHR 0x5C, CHR ''t'']
      else if c = CHR 0x0A then [CHR 0x5C, CHR ''n'']
      else if c = CHR 0x0C then [CHR 0x5C, CHR ''f'']
      else if c = CHR 0x0D then [CHR 0x5C, CHR ''r'']
      else if (of_char c :: nat) < 32 then
        [CHR 0x5C, CHR ''u'', CHR ''0'', CHR ''0'',
         hex_char ((of_char c :: nat) div 16), hex_char ((of_char c :: nat) mod 16)]
      else [c])"

definition quote_string :: "string \<Rightarrow> string" where
  "quote_string s = CHR 0x22 # concat (map escape_char s) @ [CHR 0x22]"

definition unescape_char :: "char \<Rightarrow> char option" where
  "unescape_char e =
     (if e = CHR 0x22 then Some (CHR 0x22)
      else if e = CHR 0x5C then Some (CHR 0x5C)
      else if e = CHR ''/'' then Some (CHR ''/'')
      else if e = CHR ''b'' then Some (CHR 0x08)
      else if e = CHR ''t'' then Some (CHR 0x09)
      else if e = CHR ''n'' then Some (CHR 0x0A)
      else if e = CHR ''f'' then Some (CHR 0x0C)
      else if e = CHR ''r'' then Some (CHR 0x0D)
      else None)"

definition hex4 :: "char \<Rightarrow> char \<Rightarrow> char \<Rightarrow> char \<Rightarrow> nat option" where
  "hex4 a b c d =
     (case (hex_val a, hex_val b, hex_val c, hex_val d) of
        (Some w, Some x, Some y, Some z) \<Rightarrow> Some (((w * 16 + x) * 16 + y) * 16 + z)
      | _ \<Rightarrow> None)"

definition cons_result :: "char \<Rightarrow> error + (string \<times> string) \<Rightarrow> error + (string \<times> string)" where
  "cons_result c r = (case r of Inl e \<Rightarrow> Inl e | Inr (s, rest) \<Rightarrow> Inr (c # s, rest))"

text \<open>The characters of a string literal after its opening quotation mark: the string, and
  the text behind the closing mark.\<close>

fun parse_string_body :: "string \<Rightarrow> error + (string \<times> string)" where
  "parse_string_body [] = Inl SyntaxError"
| "parse_string_body (c # cs) =
     (if c = CHR 0x22 then Inr ([], cs)
      else if c = CHR 0x5C then
        (case cs of
           [] \<Rightarrow> Inl SyntaxError
         | e # rest \<Rightarrow>
             if e = CHR ''u'' then
               (case rest of
                  h1 # h2 # h3 # h4 # rest' \<Rightarrow>
                    (case hex4 h1 h2 h3 h4 of
                       None \<Rightarrow> Inl SyntaxError
                     | Some n \<Rightarrow>
                         if n < 256 then cons_result (char_of n) (parse_string_body rest')
                         else Inl OutsideModel)
                | _ \<Rightarrow> Inl SyntaxError)
             else
               (case unescape_char e of
                  None \<Rightarrow> Inl SyntaxError
                | Some d \<Rightarrow> cons_result d (parse_string_body rest)))
      else if (of_char c :: nat) < 32 then Inl SyntaxError
      else cons_result c (parse_string_body cs))"

subsection \<open>Values\<close>

text \<open>\<open>JSON.stringify(v)\<close>.\<close>

fun render :: "json \<Rightarrow> string"
  and render_elems :: "json list \<Rightarrow> string"
  and render_members :: "(string \<times> json) list \<Rightarrow> string" where
  "render JNull = ''null''"
| "render (JBool b) = (if b then ''true'' else ''false'')"
| "render (JNum i) = show_int i"
| "render (JStr s) = quote_string s"
| "render (JArr vs) = ''['' @ render_elems vs @ '']''"
| "render (JObj ms) = ''{'' @ render_members ms @ ''}''"
| "render_elems [] = []"
| "render_elems (v # vs) = render v @ (if vs = [] then [] else '','' @ render_elems vs)"
| "render_members [] = []"
| "render_members (m # ms) =
     quote_string (fst m) @ '':'' @ render (snd m) @ (if ms = [] then [] else '','' @ render_members ms)"

text \<open>\<open>JSON.stringify(v, null, 2)\<close>: one element or member per line, indented by two spaces
  per level; an empty array or object stays \<open>[]\<close> or \<open>{}\<close>.\<close>

definition newline_indent :: "nat \<Rightarrow> string" where
  "newline_indent level = CHR 0x0A # replicate (2 * level) CHR '' ''"

fun render_pretty :: "nat \<Rightarrow> json \<Rightarrow> string"
  and pretty_elems :: "nat \<Rightarrow> json list \<Rightarrow> string"
  and pretty_members :: "nat \<Rightarrow> (string \<times> json) list \<Rightarrow> string" where
  "render_pretty level JNull = ''null''"
| "render_pretty level (JBool b) = (if b then ''true'' else ''false'')"
| "render_pretty level (JNum i) = show_int i"
| "render_pretty level (JStr s) = quote_string s"
| "render_pretty level (JArr vs) =
     (if vs = [] then ''[]''
      else ''['' @ pretty_elems (Suc level) vs @ newline_indent level @ '']'')"
| "render_pretty level (JObj ms) =
     (if ms = [] then ''{}''
      else ''{'' @ pretty_members (Suc level) ms @ newline_indent level @ ''}'')"
| "pretty_elems level [] = []"
| "pretty_elems level (v # vs) =
     newline_indent level @ render_pretty level v
       @ (if vs = [] then [] else '','' @ pretty_elems level vs)"
| "pretty_members level [] = []"
| "pretty_members level (m # ms) =
     newline_indent level @ quote_string (fst m) @ '': '' @ render_pretty level (snd m)
       @ (if ms = [] then [] else '','' @ pretty_members level ms)"

definition is_json_ws :: "char \<Rightarrow> bool" where
  "is_json_ws c = (c = CHR '' '' \<or> c = CHR 0x09 \<or> c = CHR 0x0A \<or> c = CHR 0x0D)"

definition skip_ws :: "string \<Rightarrow> string" where
  "skip_ws s = dropWhile is_json_ws s"

text \<open>
  \<open>JSON.parse\<close>, by recursive descent. The first argument bounds the calls still allowed;
  the length of the text, plus one, is enough for every text, and running out of it is
  reported as outside the model.
\<close>

fun parse_value :: "nat \<Rightarrow> string \<Rightarrow> error + (json \<times> string)"
  and parse_elems :: "nat \<Rightarrow> string \<Rightarrow> error + (json list \<times> string)"
  and parse_members :: "nat \<Rightarrow> string \<Rightarrow> error + ((string \<times> json) list \<times> string)" where
  "parse_value 0 s = Inl OutsideModel"
| "parse_value (Suc n) s =
     (case skip_ws s of
        [] \<Rightarrow> Inl SyntaxError
      | c # cs \<Rightarrow>
          if c = CHR 0x22 then
            (case parse_string_body cs of Inl e \<Rightarrow> Inl e | Inr (str, rest) \<Rightarrow> Inr (JStr str, rest))
          else if c = CHR ''{'' then
            (if startsWith (skip_ws cs) ''}'' then Inr (JObj [], drop 1 (skip_ws cs))
             else (case parse_members n cs of Inl e \<Rightarrow> Inl e | Inr (ms, rest) \<Rightarrow> Inr (JObj ms, rest)))
          else if c = CHR ''['' then
            (if startsWith (skip_ws cs) '']'' then Inr (JArr [], drop 1 (skip_ws cs))
             else (case parse_elems n cs of Inl e \<Rightarrow> Inl e | Inr (vs, rest) \<Rightarrow> Inr (JArr vs, rest)))
          else if startsWith (c # cs) ''true'' then Inr (JBool True, drop 3 cs)
          else if startsWith (c # cs) ''false'' then Inr (JBool False, drop 4 cs)
          else if startsWith (c # cs) ''null'' then Inr (JNull, drop 3 cs)
          else
            (case parse_number (c # cs) of Inl e \<Rightarrow> Inl e | Inr (i, rest) \<Rightarrow> Inr (JNum i, rest)))"
| "parse_elems 0 s = Inl OutsideModel"
| "parse_elems (Suc n) s =
     (case parse_value n s of
        Inl e \<Rightarrow> Inl e
      | Inr (v, rest) \<Rightarrow>
          (case skip_ws rest of
             [] \<Rightarrow> Inl SyntaxError
           | c # cs \<Rightarrow>
               if c = CHR '','' then
                 (case parse_elems n cs of Inl e \<Rightarrow> Inl e | Inr (vs, rest') \<Rightarrow> Inr (v # vs, rest'))
               else if c = CHR '']'' then Inr ([v], cs)
               else Inl SyntaxError))"
| "parse_members 0 s = Inl OutsideModel"
| "parse_members (Suc n) s =
     (case skip_ws s of
        [] \<Rightarrow> Inl SyntaxError
      | q # cs \<Rightarrow>
          if q \<noteq> CHR 0x22 then Inl SyntaxError
          else
            (case parse_string_body cs of
               Inl e \<Rightarrow> Inl e
             | Inr (k, rest) \<Rightarrow>
                 (case skip_ws rest of
                    [] \<Rightarrow> Inl SyntaxError
                  | colon # rest1 \<Rightarrow>
                      if colon \<noteq> CHR '':'' then Inl SyntaxError
                      else
                        (case parse_value n rest1 of
                           Inl e \<Rightarrow> Inl e
                         | Inr (v, rest2) \<Rightarrow>
                             (case skip_ws rest2 of
                                [] \<Rightarrow> Inl SyntaxError
                              | c # rest3 \<Rightarrow>
                                  if c = CHR '','' then
                                    (case parse_members n rest3 of
                                       Inl e \<Rightarrow> Inl e
                                     | Inr (ms, rest4) \<Rightarrow> Inr ((k, v) # ms, rest4))
                                  else if c = CHR ''}'' then Inr ([(k, v)], rest3)
                                  else Inl SyntaxError)))))"

definition JSON_parse :: "string \<Rightarrow> error + json" where
  "JSON_parse text =
     (case parse_value (Suc (length text)) text of
        Inl e \<Rightarrow> Inl e
      | Inr (v, rest) \<Rightarrow> if skip_ws rest = [] then Inr v else Inl SyntaxError)"

subsection \<open>Events and summaries as JSON\<close>

text \<open>
  The object of an event: its \<open>type\<close> tag, then the fields of its interface; a field that is
  \<open>undefined\<close> is left out, as \<open>JSON.stringify\<close> leaves it out. (The sources build the
  objects with the keys in several orders; a reader of the object does not see the order.)
\<close>

definition opt_str :: "string \<Rightarrow> string option \<Rightarrow> (string \<times> json) list" where
  "opt_str k v = (case v of None \<Rightarrow> [] | Some s \<Rightarrow> [(k, JStr s)])"

definition opt_num :: "string \<Rightarrow> int option \<Rightarrow> (string \<times> json) list" where
  "opt_num k v = (case v of None \<Rightarrow> [] | Some i \<Rightarrow> [(k, JNum i)])"

fun signal_name :: "signal \<Rightarrow> string" where
  "signal_name manual_edit = ''manual_edit''"
| "signal_name revert = ''revert''"
| "signal_name fixup = ''fixup''"
| "signal_name long_pause = ''long_pause''"
| "signal_name abort = ''abort''"

definition signal_named :: "string \<Rightarrow> signal option" where
  "signal_named s =
     (if s = ''manual_edit'' then Some manual_edit
      else if s = ''revert'' then Some revert
      else if s = ''fixup'' then Some fixup
      else if s = ''long_pause'' then Some long_pause
      else if s = ''abort'' then Some abort
      else None)"

fun encode_event :: "AdapterEvent \<Rightarrow> json" where
  "encode_event (SessionStartEvent sid ag ts pr) =
     JObj ([(''type'', JStr ''session_start''), (''sessionId'', JStr sid), (''agent'', JStr ag),
            (''timestamp'', JNum ts)] @ opt_str ''prompt'' pr)"
| "encode_event (SessionEndEvent sid ts exitCode) =
     JObj ([(''type'', JStr ''session_end''), (''sessionId'', JStr sid), (''timestamp'', JNum ts)]
           @ opt_num ''exitCode'' exitCode)"
| "encode_event (FileEditEvent sid ts path added removed tool) =
     JObj ([(''type'', JStr ''file_edit''), (''sessionId'', JStr sid), (''timestamp'', JNum ts),
            (''path'', JStr path), (''linesAdded'', JNum added), (''linesRemoved'', JNum removed)]
           @ opt_str ''tool'' tool)"
| "encode_event (CommandRunEvent sid ts command exitCode out err) =
     JObj ([(''type'', JStr ''command_run''), (''sessionId'', JStr sid), (''timestamp'', JNum ts),
            (''command'', JStr command), (''exitCode'', JNum exitCode)]
           @ opt_str ''stdout'' out @ opt_str ''stderr'' err)"
| "encode_event (TestResultEvent sid ts framework passed failed skipped raw) =
     JObj ([(''type'', JStr ''test_result''), (''sessionId'', JStr sid), (''timestamp'', JNum ts),
            (''framework'', JStr framework), (''passed'', JNum passed), (''failed'', JNum failed),
            (''skipped'', JNum skipped)] @ opt_str ''raw'' raw)"
| "encode_event (UserInterventionEvent sid ts sig detail) =
     JObj ([(''type'', JStr ''user_intervention''), (''sessionId'', JStr sid), (''timestamp'', JNum ts),
            (''signal'', JStr (signal_name sig))] @ opt_str ''detail'' detail)"

text \<open>Reading the fields of a parsed object; where a key occurs twice the last one counts.
  \<open>None\<close> is an object that is not of the interface.\<close>

definition field :: "(string \<times> json) list \<Rightarrow> string \<Rightarrow> json option" where
  "field ms k = map_of (rev ms) k"

definition str_field :: "(string \<times> json) list \<Rightarrow> string \<Rightarrow> string option" where
  "str_field ms k = (case field ms k of Some (JStr s) \<Rightarrow> Some s | _ \<Rightarrow> None)"

definition num_field :: "(string \<times> json) list \<Rightarrow> string \<Rightarrow> int option" where
  "num_field ms k = (case field ms k of Some (JNum i) \<Rightarrow> Some i | _ \<Rightarrow> None)"

definition opt_str_field :: "(string \<times> json) list \<Rightarrow> string \<Rightarrow> string option option" where
  "opt_str_field ms k =
     (case field ms k of None \<Rightarrow> Some None | Some (JStr s) \<Rightarrow> Some (Some s) | _ \<Rightarrow> None)"

definition opt_num_field :: "(string \<times> json) list \<Rightarrow> string \<Rightarrow> int option option" where
  "opt_num_field ms k =
     (case field ms k of None \<Rightarrow> Some None | Some (JNum i) \<Rightarrow> Some (Some i) | _ \<Rightarrow> None)"

definition decode_event :: "json \<Rightarrow> AdapterEvent option" where
  "decode_event j =
     (case j of
        JObj ms \<Rightarrow>
          (case (str_field ms ''type'', str_field ms ''sessionId'', num_field ms ''timestamp'') of
             (Some ty, Some sid, Some ts) \<Rightarrow>
               if ty = ''session_start'' then
                 (case (str_field ms ''agent'', opt_str_field ms ''prompt'') of
                    (Some ag, Some pr) \<Rightarrow> Some (SessionStartEvent sid ag ts pr)
                  | _ \<Rightarrow> None)
               else if ty = ''session_end'' then
                 (case opt_num_field ms ''exitCode'' of
                    Some exitCode \<Rightarrow> Some (SessionEndEvent sid ts exitCode)
                  | _ \<Rightarrow> None)
               else if ty = ''file_edit'' then
                 (case (str_field ms ''path'', num_field ms ''linesAdded'',
                        num_field ms ''linesRemoved'', opt_str_field ms ''tool'') of
                    (Some path, Some added, Some removed, Some tool) \<Rightarrow>
                      Some (FileEditEvent sid ts path added removed tool)
                  | _ \<Rightarrow> None)
               else if ty = ''command_run'' then
                 (case (str_field ms ''command'', num_field ms ''exitCode'',
                        opt_str_field ms ''stdout'', opt_str_field ms ''stderr'') of
                    (Some command, Some exitCode, Some out, Some err) \<Rightarrow>
                      Some (CommandRunEvent sid ts command exitCode out err)
                  | _ \<Rightarrow> None)
               else if ty = ''test_result'' then
                 (case (str_field ms ''framework'', num_field ms ''passed'', num_field ms ''failed'',
                        num_field ms ''skipped'', opt_str_field ms ''raw'') of
                    (Some framework, Some passed, Some failed, Some skipped, Some raw) \<Rightarrow>
                      Some (TestResultEvent sid ts framework passed failed skipped raw)
                  | _ \<Rightarrow> None)
               else if ty = ''user_intervention'' then
                 (case (case str_field ms ''signal'' of None \<Rightarrow> None | Some s \<Rightarrow> signal_named s,
                        opt_str_field ms ''detail'') of
                    (Some sig, Some detail) \<Rightarrow> Some (UserInterventionEvent sid ts sig detail)
                  | _ \<Rightarrow> None)
               else None
           | _ \<Rightarrow> None)
      | _ \<Rightarrow> None)"

definition JSON_stringify_event :: "AdapterEvent \<Rightarrow> string" where
  "JSON_stringify_event e = render (encode_event e)"

text \<open>\<open>JSON.parse(line) as AdapterEvent\<close>. The cast checks nothing; a value that is not of
  the interface is outside the model.\<close>

definition JSON_parse_event :: "string \<Rightarrow> error + AdapterEvent" where
  "JSON_parse_event text =
     (case JSON_parse text of
        Inl e \<Rightarrow> Inl e
      | Inr j \<Rightarrow> (case decode_event j of None \<Rightarrow> Inl OutsideModel | Some e \<Rightarrow> Inr e))"

fun outcome_name :: "SessionOutcome \<Rightarrow> string" where
  "outcome_name success = ''success''"
| "outcome_name failure = ''failure''"
| "outcome_name partial = ''partial''"
| "outcome_name unknown = ''unknown''"

definition outcome_named :: "string \<Rightarrow> SessionOutcome option" where
  "outcome_named s =
     (if s = ''success'' then Some success
      else if s = ''failure'' then Some failure
      else if s = ''partial'' then Some partial
      else if s = ''unknown'' then Some unknown
      else None)"

definition encode_summary :: "SessionSummary \<Rightarrow> json" where
  "encode_summary s =
     JObj ([(''id'', JStr (id' s)), (''agent'', JStr (agent s)), (''prompt'', JStr (prompt s))]
           @ opt_str ''projectCwd'' (projectCwd s)
           @ [(''startedAt'', JNum (startedAt s)), (''endedAt'', JNum (endedAt s)),
              (''outcome'', JStr (outcome_name (outcome s))),
              (''filesChanged'', JArr (map JStr (filesChanged s))),
              (''interventions'', JNum (interventions s)),
              (''analyzed'', JBool (analyzed s))]
           @ opt_num ''reviewedEventCount'' (reviewedEventCount s))"

fun strings_of :: "json list \<Rightarrow> string list option" where
  "strings_of [] = Some []"
| "strings_of (v # vs) =
     (case (v, strings_of vs) of
        (JStr s, Some ss) \<Rightarrow> Some (s # ss)
      | _ \<Rightarrow> None)"

definition decode_summary :: "json \<Rightarrow> SessionSummary option" where
  "decode_summary j =
     (case j of
        JObj ms \<Rightarrow>
          (case (str_field ms ''id'', str_field ms ''agent'', str_field ms ''prompt'',
                 opt_str_field ms ''projectCwd'', num_field ms ''startedAt'',
                 num_field ms ''endedAt'',
                 (case str_field ms ''outcome'' of None \<Rightarrow> None | Some s \<Rightarrow> outcome_named s),
                 (case field ms ''filesChanged'' of Some (JArr vs) \<Rightarrow> strings_of vs | _ \<Rightarrow> None),
                 num_field ms ''interventions'',
                 (case field ms ''analyzed'' of Some (JBool b) \<Rightarrow> Some b | _ \<Rightarrow> None),
                 opt_num_field ms ''reviewedEventCount'') of
             (Some i, Some ag, Some pr, Some cwd, Some st, Some en, Some oc, Some fc, Some iv,
              Some an, Some rc) \<Rightarrow>
               Some \<lparr> id' = i, agent = ag, prompt = pr, projectCwd = cwd, startedAt = st,
                      endedAt = en, outcome = oc, filesChanged = fc, interventions = iv,
                      analyzed = an, reviewedEventCount = rc \<rparr>
           | _ \<Rightarrow> None)
      | _ \<Rightarrow> None)"

definition JSON_stringify_summary :: "SessionSummary \<Rightarrow> string" where
  "JSON_stringify_summary s = render_pretty 0 (encode_summary s)"

definition JSON_parse_summary :: "string \<Rightarrow> error + SessionSummary" where
  "JSON_parse_summary text =
     (case JSON_parse text of
        Inl e \<Rightarrow> Inl e
      | Inr j \<Rightarrow> (case decode_summary j of None \<Rightarrow> Inl OutsideModel | Some s \<Rightarrow> Inr s))"

section \<open>The files of the store\<close>

text \<open>
  The part of the disk the store writes: what lies at each path, a file with its content or
  a directory. \<open>write_fault\<close> gives the paths on which the system refuses a write (a full
  disk, a missing permission) and the error it raises there.
\<close>

datatype node = File string | Directory

record filesystem =
  nodes :: "string \<rightharpoonup> node"
  write_fault :: "string \<Rightarrow> error option"

definition fs_exists :: "filesystem \<Rightarrow> string \<Rightarrow> bool" where
  "fs_exists fs p = (nodes fs p \<noteq> None)"

definition parent_dir :: "string \<Rightarrow> string" where
  "parent_dir p =
     (if CHR ''/'' \<notin> set p then ''.''
      else
        (let d = rev (drop 1 (dropWhile (\<lambda>c. c \<noteq> CHR ''/'') (rev p)))
         in if d = [] then ''/'' else d))"

definition fs_readFile :: "filesystem \<Rightarrow> string \<Rightarrow> error + string" where
  "fs_readFile fs p =
     (case nodes fs p of
        None \<Rightarrow> Inl (SystemError ''ENOENT'')
      | Some Directory \<Rightarrow> Inl (SystemError ''EISDIR'')
      | Some (File content) \<Rightarrow> Inr content)"

text \<open>\<open>writeFile(p, data)\<close> and \<open>writeFile(p, data, { flag: 'a' })\<close>: the file is created when
  it is missing; its directory must exist.\<close>

definition fs_writeFile :: "bool \<Rightarrow> filesystem \<Rightarrow> string \<Rightarrow> string \<Rightarrow> error + filesystem" where
  "fs_writeFile appending fs p data =
     (case write_fault fs p of
        Some e \<Rightarrow> Inl e
      | None \<Rightarrow>
          (case nodes fs (parent_dir p) of
             None \<Rightarrow> Inl (SystemError ''ENOENT'')
           | Some (File c) \<Rightarrow> Inl (SystemError ''ENOTDIR'')
           | Some Directory \<Rightarrow>
               (case nodes fs p of
                  Some Directory \<Rightarrow> Inl (SystemError ''EISDIR'')
                | Some (File old) \<Rightarrow>
                    Inr (fs\<lparr>nodes := (nodes fs)(p \<mapsto> File (if appending then old @ data else data))\<rparr>)
                | None \<Rightarrow> Inr (fs\<lparr>nodes := (nodes fs)(p \<mapsto> File data)\<rparr>))))"

text \<open>\<open>mkdir(p, { recursive: true })\<close>: the directories on the way to \<open>p\<close> and \<open>p\<close> itself,
  where they are missing; \<open>dir_chain p\<close> lists them from the top.\<close>

definition dir_chain :: "string \<Rightarrow> string list" where
  "dir_chain p =
     (let segs = filter (\<lambda>s. s \<noteq> []) (split_on CHR ''/'' p);
          start = (if startsWith p ''/'' then ''/'' else [])
      in map (\<lambda>k. start @ join_with ''/'' (take k segs)) [1..<Suc (length segs)])"

fun make_dirs :: "filesystem \<Rightarrow> string list \<Rightarrow> (error option) \<times> filesystem" where
  "make_dirs fs [] = (None, fs)"
| "make_dirs fs (q # qs) =
     (case nodes fs q of
        Some Directory \<Rightarrow> make_dirs fs qs
      | Some (File c) \<Rightarrow> (Some (SystemError (if qs = [] then ''EEXIST'' else ''ENOTDIR'')), fs)
      | None \<Rightarrow>
          (case write_fault fs q of
             Some e \<Rightarrow> (Some e, fs)
           | None \<Rightarrow> make_dirs (fs\<lparr>nodes := (nodes fs)(q \<mapsto> Directory)\<rparr>) qs))"

definition fs_mkdir_recursive :: "filesystem \<Rightarrow> string \<Rightarrow> (error option) \<times> filesystem" where
  "fs_mkdir_recursive fs p = make_dirs fs (dir_chain p)"

section \<open>Store\<close>

text \<open>\<open>ensureSlagentDir\<close>: the store's root and its four subdirectories, each made when
  nothing exists at its path. A throw of \<open>mkdir\<close> ends the loop with the directories made so
  far in place.\<close>

fun ensure_dirs :: "filesystem \<Rightarrow> string list \<Rightarrow> (error option) \<times> filesystem" where
  "ensure_dirs fs [] = (None, fs)"
| "ensure_dirs fs (sub # subs) =
     (if \<not> fs_exists fs sub then
        (case fs_mkdir_recursive fs sub of
           (Some e, fs') \<Rightarrow> (Some e, fs')
         | (None, fs') \<Rightarrow> ensure_dirs fs' subs)
      else ensure_dirs fs subs)"

definition ensureSlagentDir :: "string \<Rightarrow> filesystem \<Rightarrow> (error option) \<times> filesystem" where
  "ensureSlagentDir slagentDir fs =
     ensure_dirs fs
       (slagentDir # map (\<lambda>s. path_join [slagentDir, s]) [''events'', ''rules'', ''backups'', ''sessions''])"

text \<open>The store object; \<open>root\<close> is \<open>slagentRoot()\<close>, fixed when the store is made.\<close>

record Store =
  root :: string
  initialized :: bool

text \<open>A call on the store runs on the store object and the files, and returns what it
  returns or throws together with both as it leaves them.\<close>

type_synonym 'a store_result = "(error + 'a) \<times> Store \<times> filesystem"

definition init :: "Store \<Rightarrow> filesystem \<Rightarrow> unit store_result" where
  "init st fs =
     (if initialized st then (Inr (), st, fs)
      else
        (case ensureSlagentDir (root st) fs of
           (Some e, fs') \<Rightarrow> (Inl e, st, fs')
         | (None, fs') \<Rightarrow> (Inr (), st\<lparr>initialized := True\<rparr>, fs')))"

definition event_file :: "Store \<Rightarrow> string \<Rightarrow> string" where
  "event_file st sessionId = path_join [root st, ''events'', sessionId @ ''.jsonl'']"

definition summary_file :: "Store \<Rightarrow> string \<Rightarrow> string" where
  "summary_file st sessionId = path_join [root st, ''sessions'', sessionId @ ''.json'']"

definition appendEvent :: "AdapterEvent \<Rightarrow> Store \<Rightarrow> filesystem \<Rightarrow> unit store_result" where
  "appendEvent event st fs =
     (case init st fs of
        (Inl e, st', fs') \<Rightarrow> (Inl e, st', fs')
      | (Inr u, st', fs') \<Rightarrow>
          (let sessionId = sessionId_of event;
               filePath = event_file st' sessionId;
               line = JSON_stringify_event event @ [CHR 0x0A]
           in case fs_writeFile True fs' filePath line of
                Inl e \<Rightarrow> (Inl e, st', fs')
              | Inr fs'' \<Rightarrow> (Inr (), st', fs'')))"

text \<open>
  The \<open>map\<close> of \<open>getSessionEvents\<close> over the lines, inside the \<open>try\<close>: the first line that
  does not parse throws, and the \<open>catch\<close> returns no events at all. A line that parses to a
  value outside the model leaves the result outside the model, unless a later line throws.
\<close>

fun parse_lines :: "string list \<Rightarrow> error + AdapterEvent list" where
  "parse_lines [] = Inr []"
| "parse_lines (line # lines) =
     (case JSON_parse_event line of
        Inl SyntaxError \<Rightarrow> Inl SyntaxError
      | Inl e \<Rightarrow> (case parse_lines lines of Inl SyntaxError \<Rightarrow> Inl SyntaxError | _ \<Rightarrow> Inl e)
      | Inr ev \<Rightarrow> (case parse_lines lines of Inl e \<Rightarrow> Inl e | Inr evs \<Rightarrow> Inr (ev # evs)))"

definition getSessionEvents :: "string \<Rightarrow> Store \<Rightarrow> filesystem \<Rightarrow> error + AdapterEvent list" where
  "getSessionEvents sessionId st fs =
     (case fs_readFile fs (event_file st sessionId) of
        Inl e \<Rightarrow> Inr []
      | Inr content \<Rightarrow>
          (case parse_lines (filter (\<lambda>line. trim line \<noteq> []) (split_on CHR 0x0A content)) of
             Inl OutsideModel \<Rightarrow> Inl OutsideModel
           | Inl e \<Rightarrow> Inr []
           | Inr events \<Rightarrow> Inr events))"

definition saveSessionSummary :: "SessionSummary \<Rightarrow> Store \<Rightarrow> filesystem \<Rightarrow> unit store_result" where
  "saveSessionSummary summary st fs =
     (case init st fs of
        (Inl e, st', fs') \<Rightarrow> (Inl e, st', fs')
      | (Inr u, st', fs') \<Rightarrow>
          (let filePath = summary_file st' (id' summary)
           in case fs_writeFile False fs' filePath (JSON_stringify_summary summary) of
                Inl e \<Rightarrow> (Inl e, st', fs')
              | Inr fs'' \<Rightarrow> (Inr (), st', fs'')))"

definition getSessionSummary ::
  "string \<Rightarrow> Store \<Rightarrow> filesystem \<Rightarrow> error + SessionSummary option" where
  "getSessionSummary sessionId st fs =
     (case fs_readFile fs (summary_file st sessionId) of
        Inl e \<Rightarrow> Inr None
      | Inr content \<Rightarrow>
          (case JSON_parse_summary content of
             Inl OutsideModel \<Rightarrow> Inl OutsideModel
           | Inl e \<Rightarrow> Inr None
           | Inr summary \<Rightarrow> Inr (Some summary)))"

section \<open>SignalEnricher\<close>

text \<open>\<open>s.toLowerCase()\<close> on code units below 256: the capital letters of ASCII and of
  Latin-1 move up by 32.\<close>

definition to_lower :: "char \<Rightarrow> char" where
  "to_lower c =
     (let n = (of_char c :: nat)
      in if (65 \<le> n \<and> n \<le> 90) \<or> (192 \<le> n \<and> n \<le> 222 \<and> n \<noteq> 215) then char_of (n + 32) else c)"

definition toLowerCase :: "string \<Rightarrow> string" where
  "toLowerCase s = map to_lower s"

text \<open>
  \<open>checkGitSignals\<close>. Its first argument is what \<open>execSync\<close> of the \<open>git log\<close> command gave
  in the enricher's directory (the output, or the error it threw), its last the reading of
  the clock taken before.
\<close>

definition checkGitSignals :: "error + string \<Rightarrow> string \<Rightarrow> int \<Rightarrow> AdapterEvent list" where
  "checkGitSignals log sessionId ts =
     (case log of
        Inl e \<Rightarrow> []
      | Inr out \<Rightarrow>
          concat (map (\<lambda>line.
              (let lower = toLowerCase line
               in (if str_includes lower ''revert'' \<or> startsWith lower ''revert ''
                   then [UserInterventionEvent sessionId ts revert (Some (trim line))] else [])
                  @ (if str_includes lower ''fixup'' \<or> startsWith lower ''fixup!''
                     then [UserInterventionEvent sessionId ts fixup (Some (trim line))] else [])))
            (split_on CHR 0x0A out)))"

text \<open>\<open>detectManualEdits\<close>, on the disk that holds the project's files.\<close>

definition detectManualEdits :: "disk \<Rightarrow> string \<Rightarrow> string list \<Rightarrow> int \<Rightarrow> AdapterEvent list" where
  "detectManualEdits d enricher_cwd agentFiles afterTimestamp =
     concat (map (\<lambda>f.
         (case stat d (path_join [enricher_cwd, f]) of
            Inl e \<Rightarrow> []
          | Inr st \<Rightarrow>
              if mtimeMs st > afterTimestamp
              then [UserInterventionEvent [] (mtimeMs st) manual_edit (Some f)]
              else []))
       agentFiles)"

definition GAP_MS :: int where
  "GAP_MS = 5 * 60 * 1000"

text \<open>\<open>Math.round(x / y)\<close> for integers \<open>x\<close> and \<open>y > 0\<close>: the nearest integer, a half
  rounded up.\<close>

definition Math_round_div :: "int \<Rightarrow> int \<Rightarrow> int" where
  "Math_round_div x y = (2 * x + y) div (2 * y)"

fun detectTimingSignals :: "AdapterEvent list \<Rightarrow> AdapterEvent list" where
  "detectTimingSignals (prv # cur # rest) =
     (if timestamp_of cur - timestamp_of prv > GAP_MS
      then [UserInterventionEvent (sessionId_of cur) (timestamp_of cur) long_pause
              (Some (show_int (Math_round_div (timestamp_of cur - timestamp_of prv) 60000)
                     @ ''min gap''))]
      else [])
     @ detectTimingSignals (cur # rest)"
| "detectTimingSignals events = []"

section \<open>LiveWatcher\<close>

record TrackedSession =
  agent' :: string
  sessionId :: string
  sessionPath :: "string option"
  eventCount :: int
  startTime :: int
  prompt' :: string
  files :: "string list"
  active :: bool
  cwd :: string

datatype WatcherEventType = agent_online | agent_offline | session_start | session_end

datatype WatcherEvent =
  WatcherEvent WatcherEventType string "string option" "string option" "string option"
    \<comment> \<open>type, agent, sessionId?, sessionPath?, projectCwd?\<close>

text \<open>What an adapter reports: \<open>GlobalSessionInfo\<close>, and an event tagged with its project.\<close>

record GlobalSessionInfo =
  cwd' :: string
  sessionId' :: string
  sessionPath' :: "string option"

type_synonym GlobalAdapterEvent = "AdapterEvent \<times> string"

text \<open>An adapter as the watcher sees it at one tick: its name and what its two calls return
  or throw.\<close>

record Adapter =
  name :: string
  pollAll :: "int \<Rightarrow> error + GlobalAdapterEvent list"
  getAllActiveSessions :: "error + GlobalSessionInfo list"

text \<open>
  What the watcher reads from outside and cannot change: the successive readings of
  \<open>Date.now()\<close>, the successive results of \<open>randomUUID()\<close>, what \<open>git log\<close> gives in each
  directory, and the disk with the projects' files.
\<close>

record environment =
  clock :: "nat \<Rightarrow> int"
  uuids :: "nat \<Rightarrow> string"
  git_log :: "string \<Rightarrow> error + string"
  project_files :: disk

datatype store_write = Appended AdapterEvent | Saved SessionSummary

text \<open>
  The state a tick runs on. The fields of the watcher object: \<open>lastPollTime\<close>, the maps
  \<open>sessions\<close> (in insertion order, as a \<open>Map\<close> iterates), \<open>lastActive\<close> and \<open>enrichers\<close> (the
  directories that have an enricher), and its store. Around it: the files of the store and
  how many clock readings and identifiers have been taken. For the record only: the events
  handed to the listeners, and the writes the store has completed, in order.
\<close>

record world =
  lastPollTime :: int
  sessions :: "(string \<times> TrackedSession) list"
  lastActive :: "string \<rightharpoonup> bool"
  enrichers :: "string list"
  store :: Store
  store_files :: filesystem
  clock_reads :: nat
  uuid_reads :: nat
  emitted :: "WatcherEvent list"
  writes :: "store_write list"

text \<open>A step of the watcher returns or throws, and leaves a state either way.\<close>

type_synonym 'a action = "world \<Rightarrow> (error + 'a) \<times> world"

definition returns :: "'a \<Rightarrow> 'a action" where
  "returns x w = (Inr x, w)"

definition and_then :: "'a action \<Rightarrow> ('a \<Rightarrow> 'b action) \<Rightarrow> 'b action" where
  "and_then m f w = (case m w of (Inl e, w') \<Rightarrow> (Inl e, w') | (Inr x, w') \<Rightarrow> f x w')"

definition lift_result :: "error + 'a \<Rightarrow> 'a action" where
  "lift_result r w = (r, w)"

fun for_each :: "('a \<Rightarrow> unit action) \<Rightarrow> 'a list \<Rightarrow> unit action" where
  "for_each body [] = returns ()"
| "for_each body (x # xs) = and_then (body x) (\<lambda>u. for_each body xs)"

text \<open>\<open>try { ... } catch { }\<close> around a step: whatever it throws is dropped.\<close>

definition catch_all :: "unit action \<Rightarrow> unit action" where
  "catch_all m w =
     (case m w of
        (Inl OutsideModel, w') \<Rightarrow> (Inl OutsideModel, w')
      | (Inl e, w') \<Rightarrow> (Inr (), w')
      | (Inr u, w') \<Rightarrow> (Inr (), w'))"

definition now :: "environment \<Rightarrow> int action" where
  "now env w = (Inr (clock env (clock_reads w)), w\<lparr>clock_reads := Suc (clock_reads w)\<rparr>)"

definition randomUUID :: "environment \<Rightarrow> string action" where
  "randomUUID env w = (Inr (uuids env (uuid_reads w)), w\<lparr>uuid_reads := Suc (uuid_reads w)\<rparr>)"

definition emit :: "WatcherEvent \<Rightarrow> unit action" where
  "emit event w = (Inr (), w\<lparr>emitted := emitted w @ [event]\<rparr>)"

definition store_appendEvent :: "AdapterEvent \<Rightarrow> unit action" where
  "store_appendEvent event w =
     (case appendEvent event (store w) (store_files w) of
        (Inl e, st, fs) \<Rightarrow> (Inl e, w\<lparr>store := st, store_files := fs\<rparr>)
      | (Inr u, st, fs) \<Rightarrow>
          (Inr (), w\<lparr>store := st, store_files := fs, writes := writes w @ [Appended event]\<rparr>))"

definition store_saveSessionSummary :: "SessionSummary \<Rightarrow> unit action" where
  "store_saveSessionSummary summary w =
     (case saveSessionSummary summary (store w) (store_files w) of
        (Inl e, st, fs) \<Rightarrow> (Inl e, w\<lparr>store := st, store_files := fs\<rparr>)
      | (Inr u, st, fs) \<Rightarrow>
          (Inr (), w\<lparr>store := st, store_files := fs, writes := writes w @ [Saved summary]\<rparr>))"

definition store_getSessionEvents :: "string \<Rightarrow> AdapterEvent list action" where
  "store_getSessionEvents sid w = (getSessionEvents sid (store w) (store_files w), w)"

definition sessionKey :: "string \<Rightarrow> string \<Rightarrow> string" where
  "sessionKey adapterName project = adapterName @ '':'' @ project"

text \<open>\<open>getEnricher\<close>: the enricher of a directory, made at the first call for it. An enricher
  holds its directory and nothing else.\<close>

definition getEnricher :: "string \<Rightarrow> string action" where
  "getEnricher project w =
     (if project \<in> set (enrichers w) then (Inr project, w)
      else (Inr project, w\<lparr>enrichers := enrichers w @ [project]\<rparr>))"

text \<open>\<open>sessions.set\<close>, \<open>sessions.delete\<close>, \<open>lastActive.set\<close>.\<close>

definition sessions_set :: "string \<Rightarrow> TrackedSession \<Rightarrow> unit action" where
  "sessions_set key session w = (Inr (), w\<lparr>sessions := AList.update key session (sessions w)\<rparr>)"

definition sessions_delete :: "string \<Rightarrow> unit action" where
  "sessions_delete key w = (Inr (), w\<lparr>sessions := AList.delete key (sessions w)\<rparr>)"

definition lastActive_set :: "string \<Rightarrow> bool \<Rightarrow> unit action" where
  "lastActive_set key b w = (Inr (), w\<lparr>lastActive := (lastActive w)(key \<mapsto> b)\<rparr>)"

text \<open>Lines 193 to 200 of \<open>sealSession\<close>: the outcome from the events read.\<close>

definition compute_outcome :: "AdapterEvent list \<Rightarrow> SessionOutcome" where
  "compute_outcome events =
     (let testEvents = filter (\<lambda>e. case e of TestResultEvent sid ts fw p f s raw \<Rightarrow> True | _ \<Rightarrow> False) events;
          hasFailures = list_ex (\<lambda>e. case e of TestResultEvent sid ts fw p f s raw \<Rightarrow> f > 0 | _ \<Rightarrow> False)
                          testEvents;
          hasSuccesses = list_ex (\<lambda>e. case e of TestResultEvent sid ts fw p f s raw \<Rightarrow> p > 0 \<and> f = 0
                                       | _ \<Rightarrow> False) testEvents
      in if hasFailures \<and> hasSuccesses then partial
         else if hasFailures then failure
         else if hasSuccesses then success
         else unknown)"

text \<open>\<open>[...new Set(xs)]\<close>: the first occurrence of each element, in order.\<close>

definition dedupe :: "string list \<Rightarrow> string list" where
  "dedupe xs = rev (remdups (rev xs))"

text \<open>Lines 175 to 192 of \<open>sealSession\<close>: the three kinds of derived events are appended,
  and their number is the intervention count.\<close>

definition append_signals ::
  "environment \<Rightarrow> TrackedSession \<Rightarrow> string \<Rightarrow> AdapterEvent list \<Rightarrow> nat action" where
  "append_signals env session enricher events =
     and_then (now env) (\<lambda>ts.
     and_then (returns (checkGitSignals (git_log env enricher) (sessionId session) ts)) (\<lambda>gitSignals.
     and_then (for_each (\<lambda>sig. store_appendEvent (with_sessionId (sessionId session) sig)) gitSignals)
       (\<lambda>u.
     and_then (now env) (\<lambda>t1.
     and_then (returns (detectManualEdits (project_files env) enricher (files session) (t1 - 60000)))
       (\<lambda>manualEdits.
     and_then (for_each (\<lambda>edit. store_appendEvent (with_sessionId (sessionId session) edit)) manualEdits)
       (\<lambda>u.
     and_then (returns (detectTimingSignals events)) (\<lambda>timingSignals.
     and_then (for_each (\<lambda>sig. store_appendEvent sig) timingSignals) (\<lambda>u.
     returns (length gitSignals + length manualEdits + length timingSignals)))))))))"

definition sealSession :: "environment \<Rightarrow> string \<Rightarrow> SessionSummary option action" where
  "sealSession env key w =
     (case map_of (sessions w) key of
        None \<Rightarrow> (Inr None, w)
      | Some session \<Rightarrow>
          and_then (getEnricher (cwd session)) (\<lambda>enricher.
          and_then (store_getSessionEvents (sessionId session)) (\<lambda>events.
          and_then (append_signals env session enricher events) (\<lambda>interventionCount.
          and_then (now env) (\<lambda>t.
          and_then (returns
              \<lparr> id' = sessionId session,
                agent = agent' session,
                prompt = prompt' session,
                projectCwd = Some (cwd session),
                startedAt = startTime session,
                endedAt = t,
                outcome = compute_outcome events,
                filesChanged = dedupe (files session),
                interventions = int interventionCount,
                analyzed = False,
                reviewedEventCount = None \<rparr>) (\<lambda>summary.
          and_then (store_saveSessionSummary summary) (\<lambda>u.
          and_then (sessions_delete key) (\<lambda>u.
          returns (Some summary)))))))) w)"

text \<open>The session object the watcher makes for a project an adapter reports active.\<close>

definition new_session :: "string \<Rightarrow> GlobalSessionInfo \<Rightarrow> int \<Rightarrow> TrackedSession" where
  "new_session adapterName gs t =
     \<lparr> agent' = adapterName, sessionId = sessionId' gs, sessionPath = sessionPath' gs,
       eventCount = 0, startTime = t, prompt' = [], files = [], active = True, cwd = cwd' gs \<rparr>"

definition was_active :: "world \<Rightarrow> string \<Rightarrow> bool" where
  "was_active w key = (case lastActive w key of Some b \<Rightarrow> b | None \<Rightarrow> False)"

text \<open>Lines 240 to 262: the agent has just become active for the project.\<close>

definition come_online ::
  "environment \<Rightarrow> string \<Rightarrow> GlobalSessionInfo \<Rightarrow> string \<Rightarrow> TrackedSession option \<Rightarrow> unit action" where
  "come_online env adapterName gs key existing =
     and_then (if existing \<noteq> None then and_then (sealSession env key) (\<lambda>s. returns ())
               else returns ()) (\<lambda>u.
     and_then (now env) (\<lambda>t.
     and_then (sessions_set key (new_session adapterName gs t)) (\<lambda>u.
     and_then (now env) (\<lambda>t'.
     and_then (store_appendEvent (SessionStartEvent (sessionId' gs) adapterName t' None)) (\<lambda>u.
     and_then (emit (WatcherEvent agent_online adapterName None None (Some (cwd' gs)))) (\<lambda>u.
     emit (WatcherEvent session_start adapterName (Some (sessionId' gs)) (sessionPath' gs)
             (Some (cwd' gs)))))))))"

text \<open>Lines 266 to 295: the project is still active, under another session id.\<close>

definition switch_session ::
  "environment \<Rightarrow> string \<Rightarrow> GlobalSessionInfo \<Rightarrow> string \<Rightarrow> TrackedSession \<Rightarrow> unit action" where
  "switch_session env adapterName gs key ex =
     and_then (now env) (\<lambda>t.
     and_then (store_appendEvent (SessionEndEvent (sessionId ex) t None)) (\<lambda>u.
     and_then (emit (WatcherEvent session_end adapterName (Some (sessionId ex)) None
                       (Some (cwd' gs)))) (\<lambda>u.
     and_then (sealSession env key) (\<lambda>s.
     and_then (now env) (\<lambda>t'.
     and_then (sessions_set key (new_session adapterName gs t')) (\<lambda>u.
     and_then (now env) (\<lambda>t''.
     and_then (store_appendEvent (SessionStartEvent (sessionId' gs) adapterName t'' None)) (\<lambda>u.
     emit (WatcherEvent session_start adapterName (Some (sessionId' gs)) (sessionPath' gs)
             (Some (cwd' gs)))))))))))"

text \<open>The body of the loop over the active sessions an adapter reports (lines 233 to 299).\<close>

definition track_active :: "environment \<Rightarrow> string \<Rightarrow> GlobalSessionInfo \<Rightarrow> unit action" where
  "track_active env adapterName gs w =
     (let key = sessionKey adapterName (cwd' gs);
          wasActive = was_active w key;
          existing = map_of (sessions w) key
      in and_then
           (if \<not> wasActive then come_online env adapterName gs key existing else returns ()) (\<lambda>u.
         and_then
           (case existing of
              None \<Rightarrow> returns ()
            | Some ex \<Rightarrow>
                if wasActive \<and> sessionId' gs \<noteq> sessionId ex
                then switch_session env adapterName gs key ex
                else returns ()) (\<lambda>u.
         lastActive_set key True)) w)"

text \<open>Lines 309 to 318: a tracked session whose project is no longer active is ended and
  sealed.\<close>

definition go_offline :: "environment \<Rightarrow> string \<Rightarrow> string \<Rightarrow> TrackedSession \<Rightarrow> unit action" where
  "go_offline env adapterName key session =
     and_then (now env) (\<lambda>t.
     and_then (store_appendEvent (SessionEndEvent (sessionId session) t None)) (\<lambda>u.
     and_then (emit (WatcherEvent session_end adapterName (Some (sessionId session))
                       (sessionPath session) (Some (cwd session)))) (\<lambda>u.
     and_then (emit (WatcherEvent agent_offline adapterName None None (Some (cwd session)))) (\<lambda>u.
     and_then (sealSession env key) (\<lambda>s.
     lastActive_set key False)))))"

text \<open>The body of the loop over the tracked sessions that looks for those gone offline
  (lines 302 to 319).\<close>

definition check_offline ::
  "environment \<Rightarrow> string \<Rightarrow> string list \<Rightarrow> string \<times> TrackedSession \<Rightarrow> unit action" where
  "check_offline env adapterName activeKeys entry w =
     (let key = fst entry; session = snd entry
      in if agent' session \<noteq> adapterName then returns () w
         else if key \<in> set activeKeys then returns () w
         else if \<not> was_active w key then returns () w
         else go_offline env adapterName key session w)"

text \<open>Lines 327 to 342: the session an event belongs to, made from the event if the project
  has none.\<close>

definition session_for :: "environment \<Rightarrow> string \<Rightarrow> string \<Rightarrow> AdapterEvent \<Rightarrow> TrackedSession action" where
  "session_for env adapterName project baseEvent w =
     (let key = sessionKey adapterName project
      in case map_of (sessions w) key of
           Some session \<Rightarrow> returns session w
         | None \<Rightarrow>
             and_then (if sessionId_of baseEvent \<noteq> [] then returns (sessionId_of baseEvent)
                       else randomUUID env) (\<lambda>sid.
             and_then (returns
                 \<lparr> agent' = adapterName, sessionId = sid, sessionPath = None, eventCount = 0,
                   startTime = timestamp_of baseEvent, prompt' = [], files = [], active = True,
                   cwd = project \<rparr>) (\<lambda>session.
             and_then (sessions_set key session) (\<lambda>u.
             and_then (lastActive_set key True) (\<lambda>u.
             and_then (emit (WatcherEvent session_start adapterName (Some sid) None (Some project)))
               (\<lambda>u.
             returns session))))) w)"

text \<open>The body of the loop over the polled events (lines 322 to 352).\<close>

definition route_event :: "environment \<Rightarrow> string \<Rightarrow> GlobalAdapterEvent \<Rightarrow> unit action" where
  "route_event env adapterName event =
     (let baseEvent = fst event; project = snd event;
          key = sessionKey adapterName project
      in and_then (session_for env adapterName project baseEvent) (\<lambda>session.
         and_then
           (returns (case baseEvent of
                       FileEditEvent sid ts path added removed tool \<Rightarrow>
                         session\<lparr>files := files session @ [path]\<rparr>
                     | _ \<Rightarrow> session)) (\<lambda>session1.
         and_then (sessions_set key session1) (\<lambda>u.
         and_then (store_appendEvent (with_sessionId (sessionId session1) baseEvent)) (\<lambda>u.
         sessions_set key (session1\<lparr>eventCount := eventCount session1 + 1\<rparr>))))))"

text \<open>One adapter's turn in \<open>pollAdapters\<close>, inside its \<open>try\<close>.\<close>

definition poll_adapter :: "environment \<Rightarrow> int \<Rightarrow> Adapter \<Rightarrow> unit action" where
  "poll_adapter env since adapter =
     and_then (lift_result (pollAll adapter since)) (\<lambda>globalEvents.
     and_then (lift_result (getAllActiveSessions adapter)) (\<lambda>activeSessions.
     and_then (for_each (track_active env (name adapter)) activeSessions) (\<lambda>u.
     and_then (\<lambda>w. for_each
                 (check_offline env (name adapter)
                    (map (\<lambda>gs. sessionKey (name adapter) (cwd' gs)) activeSessions))
                 (sessions w) w) (\<lambda>u.
     for_each (route_event env (name adapter)) globalEvents))))"

definition pollAdapters :: "environment \<Rightarrow> Adapter list \<Rightarrow> unit action" where
  "pollAdapters env adapters w =
     (let since = lastPollTime w
      in and_then (now env) (\<lambda>t.
         and_then (\<lambda>w'. (Inr (), w'\<lparr>lastPollTime := t\<rparr>)) (\<lambda>u.
         for_each (\<lambda>adapter. catch_all (poll_adapter env since adapter)) adapters)) w)"

section \<open>Specification-level notions and test inputs\<close>

subsection \<open>Directory-name decoding\<close>

text \<open>The candidate path of the run \<open>parts[i..j)\<close>, as the inner loop builds it.\<close>

definition run_candidate :: "string \<Rightarrow> string list \<Rightarrow> nat \<Rightarrow> nat \<Rightarrow> string" where
  "run_candidate path parts i j = path @ ''/'' @ join_with ''-'' (slice parts i j)"

text \<open>A disk that holds the project directory and its parents only.\<close>

definition disk_project :: "string \<Rightarrow> bool" where
  "disk_project p = (p \<in> set [''/Users'', ''/Users/dev'', ''/Users/dev/my-project''])"

text \<open>The same disk with a sibling directory \<open>/Users/dev-my\<close> beside \<open>/Users/dev\<close>.\<close>

definition disk_both :: "string \<Rightarrow> bool" where
  "disk_both p = (p \<in> set [''/Users'', ''/Users/dev'', ''/Users/dev/my-project'', ''/Users/dev-my''])"

subsection \<open>Polling\<close>

text \<open>What \<open>readNewLines\<close> decodes from a piece of text, the offset it reads for a log unit,
  and a log unit whose content lies at or before that offset; then a log store with one
  project, one log unit of two lines, and a decoder that tags each line with its session.\<close>

definition decode_lines :: "(string \<Rightarrow> string \<Rightarrow> 'ev list) \<Rightarrow> string \<Rightarrow> string \<Rightarrow> 'ev list" where
  "decode_lines parseLine sid text =
     concat (map (\<lambda>line. parseLine line sid)
               (filter (\<lambda>line. trim line \<noteq> []) (split_on CHR 0x0A text)))"

definition log_disk :: disk where
  "log_disk =
     \<lparr> existsSync = (\<lambda>p. p \<in> set [''/home/u/.claude/projects'', ''/home/u/.claude/projects/-w-app'']),
       readdir = (\<lambda>p. if p = ''/home/u/.claude/projects/-w-app'' then Inr [''s1.jsonl'', ''notes.txt'']
                        else Inl (SystemError ''ENOENT'')),
       stat = (\<lambda>p. if p = ''/home/u/.claude/projects/-w-app/s1.jsonl''
                     then Inr \<lparr> mtimeMs = 1000, isDirectory = False \<rparr>
                     else Inl (SystemError ''ENOENT'')),
       readFile = (\<lambda>p. if p = ''/home/u/.claude/projects/-w-app/s1.jsonl''
                         then Inr [CHR ''a'', CHR 0x0A, CHR 0x0A, CHR ''b'', CHR 0x0A]
                         else Inl (SystemError ''ENOENT'')) \<rparr>"

definition log_env :: process_env where
  "log_env = \<lparr> HOME = Some ''/home/u'', USERPROFILE = None \<rparr>"

definition tag_line :: "string \<Rightarrow> string \<Rightarrow> (string \<times> string) list" where
  "tag_line line sid = [(sid, line)]"

definition offset_of :: "claude_adapter \<Rightarrow> string \<Rightarrow> nat" where
  "offset_of a p = (case lastOffsets a p of Some n \<Rightarrow> n | None \<Rightarrow> 0)"

definition consumed :: "disk \<Rightarrow> claude_adapter \<Rightarrow> string \<Rightarrow> bool" where
  "consumed d a p = (case readFile d p of Inl e \<Rightarrow> True | Inr content \<Rightarrow> length content \<le> offset_of a p)"


subsection \<open>Ignore rules\<close>

text \<open>A project \<open>/w\<close> whose \<open>.gitignore\<close> has the given content and which has no
  \<open>.git/info/exclude\<close>; the two-rule file of the example; and the rules the matcher compiles
  for a \<open>.gitignore\<close>: the built-in ones, then the file's.\<close>

definition rules_disk :: "string \<Rightarrow> disk" where
  "rules_disk content =
     \<lparr> existsSync = (\<lambda>p. p = ''/w/.gitignore''),
       readdir = (\<lambda>p. Inl (SystemError ''ENOTDIR'')),
       stat = (\<lambda>p. Inl (SystemError ''ENOENT'')),
       readFile = (\<lambda>p. if p = ''/w/.gitignore'' then Inr content else Inl (SystemError ''ENOENT'')) \<rparr>"

definition log_rules :: string where
  "log_rules = ''*.log'' @ [CHR 0x0A] @ ''!keep.log'' @ [CHR 0x0A]"

definition rules_of :: "string \<Rightarrow> IgnorePattern list" where
  "rules_of content =
     snd (push_patterns (rule_lines content) (snd (push_patterns HARDCODED_IGNORES [])))"


subsection \<open>The event log as text\<close>

text \<open>Notions for the proofs about the line format: where a number literal may end, the
  scalar values of an event object, a text that goes on with a separator, and the text
  \<open>appendEvent\<close> writes for a list of events.\<close>

definition num_end :: "string \<Rightarrow> bool" where
  "num_end rest = (rest = [] \<or> (\<not> is_digit (hd rest) \<and> hd rest \<notin> set ''.eE''))"

fun scalar :: "json \<Rightarrow> bool" where
  "scalar (JStr s) = True"
| "scalar (JNum i) = True"
| "scalar v = False"

definition sep_next :: "string \<Rightarrow> bool" where
  "sep_next rest = (rest \<noteq> [] \<and> (hd rest = CHR '','' \<or> hd rest = CHR ''}''))"

definition event_lines :: "AdapterEvent list \<Rightarrow> string" where
  "event_lines es = concat (map (\<lambda>e. JSON_stringify_event e @ [CHR 0x0A]) es)"

text \<open>
  What the files of the store hold: the content of a file at a path (nothing for a directory
  or a missing path), and the text of an event log, empty when there is no file. A file system
  that differs from another by added directories only. Appending events one after the other,
  as the awaited calls of a caller do, until one throws. A home directory with no store yet,
  a store on it, and events for the examples.
\<close>

definition file_content :: "filesystem \<Rightarrow> string \<Rightarrow> string option" where
  "file_content fs p = (case nodes fs p of Some (File c) \<Rightarrow> Some c | _ \<Rightarrow> None)"

definition log_text :: "filesystem \<Rightarrow> string \<Rightarrow> string" where
  "log_text fs p = (case file_content fs p of None \<Rightarrow> [] | Some c \<Rightarrow> c)"

definition dirs_added :: "filesystem \<Rightarrow> filesystem \<Rightarrow> bool" where
  "dirs_added fs fs' =
     (write_fault fs' = write_fault fs \<and>
      (\<forall>p. nodes fs' p = nodes fs p \<or> (nodes fs p = None \<and> nodes fs' p = Some Directory)))"

fun append_all :: "AdapterEvent list \<Rightarrow> Store \<Rightarrow> filesystem \<Rightarrow> unit store_result" where
  "append_all [] st fs = (Inr (), st, fs)"
| "append_all (e # es) st fs =
     (case appendEvent e st fs of
        (Inl x, st', fs') \<Rightarrow> (Inl x, st', fs')
      | (Inr u, st', fs') \<Rightarrow> append_all es st' fs')"

definition fresh_home :: filesystem where
  "fresh_home =
     \<lparr> nodes = [''/'' \<mapsto> Directory, ''/home'' \<mapsto> Directory, ''/home/u'' \<mapsto> Directory],
       write_fault = (\<lambda>p. None) \<rparr>"

definition new_store :: Store where
  "new_store = \<lparr> root = ''/home/u/.slagent'', initialized = False \<rparr>"

definition two_events :: "AdapterEvent list" where
  "two_events =
     [CommandRunEvent ''s1'' 1000 (''npm test'' @ [CHR 0x0A] @ ''echo ok'') 0 None None,
      TestResultEvent ''s1'' 1500 ''jest'' 12 0 0 (Some ''Tests: 12 passed, 12 total'')]"

definition alias_event :: AdapterEvent where
  "alias_event = SessionEndEvent ''y/../x'' 1000 None"

definition other_event :: AdapterEvent where
  "other_event = SessionStartEvent ''s2'' ''claude'' 2000 None"

text \<open>The text \<open>path.join\<close> puts in front of the last segment of a three-part path.\<close>

definition joined_head :: "string \<Rightarrow> string \<Rightarrow> string" where
  "joined_head r d = (if r = [] then d else r @ ''/'' @ d)"

definition path_prefix :: "string \<Rightarrow> string \<Rightarrow> string \<Rightarrow> string" where
  "path_prefix r d pre =
     (let absolute = (hd (joined_head r d) = CHR ''/'');
          segs = normalizeString (\<not> absolute) []
                   (split_on CHR ''/'' (butlast (joined_head r d @ ''/'' @ pre)))
      in (if absolute then ''/'' else []) @ (if segs = [] then [] else join_with ''/'' segs @ ''/''))"

subsection \<open>Repositories as \<open>git log\<close> sees them\<close>

text \<open>
  \<open>git log --oneline -20 --format="%s"\<close> prints the subjects of the twenty most recent commits, one
  on a line; outside a repository, or where git is missing, \<open>execSync\<close> throws.
\<close>

datatype git_dir = NoRepository | Repository "string list"

definition git_log_20 :: "git_dir \<Rightarrow> error + string" where
  "git_log_20 g =
     (case g of
        NoRepository \<Rightarrow> Inl (SystemError ''git'')
      | Repository subjects \<Rightarrow> Inr (concat (map (\<lambda>s. s @ [CHR 0x0A]) (take 20 subjects))))"

definition subject_signals :: "string \<Rightarrow> int \<Rightarrow> string \<Rightarrow> AdapterEvent list" where
  "subject_signals sid ts subject =
     (if str_includes (toLowerCase subject) ''revert''
      then [UserInterventionEvent sid ts revert (Some (trim subject))] else [])
     @ (if str_includes (toLowerCase subject) ''fixup''
        then [UserInterventionEvent sid ts fixup (Some (trim subject))] else [])"


subsection \<open>Sealing a session\<close>

text \<open>
  What a seal leaves of the watcher's own state, the signal events a seal appends (git signals
  and manual edits under the session's id, then timing signals), and the summary it saves; the
  clock is read three times, for the git signals, for the manual edits and for \<open>endedAt\<close>.
\<close>

definition same_watcher :: "world \<Rightarrow> world \<Rightarrow> bool" where
  "same_watcher w w' =
     (lastPollTime w' = lastPollTime w \<and> sessions w' = sessions w \<and> lastActive w' = lastActive w
      \<and> enrichers w' = enrichers w \<and> clock_reads w' = clock_reads w \<and> uuid_reads w' = uuid_reads w
      \<and> emitted w' = emitted w)"

definition seal_signals ::
  "environment \<Rightarrow> world \<Rightarrow> TrackedSession \<Rightarrow> AdapterEvent list \<Rightarrow> AdapterEvent list" where
  "seal_signals env w session events =
     map (with_sessionId (sessionId session))
       (checkGitSignals (git_log env (cwd session)) (sessionId session) (clock env (clock_reads w)))
     @ map (with_sessionId (sessionId session))
         (detectManualEdits (project_files env) (cwd session) (files session)
            (clock env (Suc (clock_reads w)) - 60000))
     @ detectTimingSignals events"

definition sealed_summary ::
  "environment \<Rightarrow> world \<Rightarrow> TrackedSession \<Rightarrow> AdapterEvent list \<Rightarrow> SessionSummary" where
  "sealed_summary env w session events =
     \<lparr> id' = sessionId session,
       agent = agent' session,
       prompt = prompt' session,
       projectCwd = Some (cwd session),
       startedAt = startTime session,
       endedAt = clock env (Suc (Suc (clock_reads w))),
       outcome = compute_outcome events,
       filesChanged = dedupe (files session),
       interventions = int (length (seal_signals env w session events)),
       analyzed = False,
       reviewedEventCount = None \<rparr>"

text \<open>
  The outcome of a session in the specification's words: a failing result is a test result
  with \<open>failed > 0\<close>, a clean pass one with \<open>passed > 0\<close> and \<open>failed = 0\<close>.
\<close>

definition failing_result :: "AdapterEvent \<Rightarrow> bool" where
  "failing_result e = (case e of TestResultEvent sid ts fw p f s raw \<Rightarrow> f > 0 | _ \<Rightarrow> False)"

definition clean_pass :: "AdapterEvent \<Rightarrow> bool" where
  "clean_pass e = (case e of TestResultEvent sid ts fw p f s raw \<Rightarrow> p > 0 \<and> f = 0 | _ \<Rightarrow> False)"

definition is_test_result :: "AdapterEvent \<Rightarrow> bool" where
  "is_test_result e = (case e of TestResultEvent sid ts fw p f s raw \<Rightarrow> True | _ \<Rightarrow> False)"

definition spec_outcome :: "AdapterEvent list \<Rightarrow> SessionOutcome" where
  "spec_outcome events =
     (if (\<exists>e \<in> set events. is_test_result e \<and> failing_result e)
         \<and> (\<exists>e \<in> set events. is_test_result e \<and> clean_pass e) then partial
      else if (\<exists>e \<in> set events. is_test_result e \<and> failing_result e) then failure
      else if (\<exists>e \<in> set events. is_test_result e \<and> clean_pass e) then success
      else unknown)"

text \<open>The summaries among the store writes, and the summary a call of \<open>sealSession\<close> returned.\<close>

definition is_saved :: "store_write \<Rightarrow> bool" where
  "is_saved wr = (case wr of Saved s \<Rightarrow> True | Appended e \<Rightarrow> False)"

definition sealed_of :: "(error + SessionSummary option) \<times> world \<Rightarrow> SessionSummary option" where
  "sealed_of x = (case fst x of Inr s \<Rightarrow> s | Inl e \<Rightarrow> None)"

text \<open>
  A watcher that tracks one session of the project \<open>/w/app\<close>, over a store that holds the given
  events; no git, no project files, a clock that starts at 5000.
\<close>

definition env0 :: environment where
  "env0 =
     \<lparr> clock = (\<lambda>k. 5000 + int k),
       uuids = (\<lambda>k. ''uuid-'' @ show_nat k),
       git_log = (\<lambda>d. Inl (SystemError ''git'')),
       project_files =
         \<lparr> existsSync = (\<lambda>p. False),
           readdir = (\<lambda>p. Inl (SystemError ''ENOENT'')),
           stat = (\<lambda>p. Inl (SystemError ''ENOENT'')),
           readFile = (\<lambda>p. Inl (SystemError ''ENOENT'')) \<rparr> \<rparr>"

definition session0 :: TrackedSession where
  "session0 =
     \<lparr> agent' = ''claude'', sessionId = ''s1'', sessionPath = None, eventCount = 2, startTime = 900,
       prompt' = [], files = [], active = True, cwd = ''/w/app'' \<rparr>"

definition world_with :: "AdapterEvent list \<Rightarrow> world" where
  "world_with events =
     \<lparr> lastPollTime = 4000,
       sessions = [(''claude:/w/app'', session0)],
       lastActive = [''claude:/w/app'' \<mapsto> True],
       enrichers = [],
       store = fst (snd (append_all events new_store fresh_home)),
       store_files = snd (snd (append_all events new_store fresh_home)),
       clock_reads = 0,
       uuid_reads = 0,
       emitted = [],
       writes = [] \<rparr>"

definition pass_and_fail :: "AdapterEvent list" where
  "pass_and_fail =
     [TestResultEvent ''s1'' 1000 ''jest'' 5 0 0 None, TestResultEvent ''s1'' 2000 ''jest'' 1 5 0 None]"

definition mixed_results :: "AdapterEvent list" where
  "mixed_results =
     [TestResultEvent ''s1'' 1000 ''jest'' 1 5 0 None, TestResultEvent ''s1'' 2000 ''jest'' 5 1 0 None]"


section \<open>Directory-name decoding (C7)\<close>

lemma find_run_None:
  "find_run ex parts path i j0 = None \<longleftrightarrow> (\<forall>j. i < j \<and> j \<le> j0 \<longrightarrow> \<not> ex (run_candidate path parts i j))"
proof (induction j0)
  case 0
  then show ?case by simp
next
  case (Suc j0)
  show ?case
  proof (cases "Suc j0 > i")
    case True
    then show ?thesis using Suc
      by (auto simp: Let_def run_candidate_def le_Suc_eq)
  next
    case False
    then show ?thesis by auto
  qed
qed

lemma find_run_Some:
  "find_run ex parts path i j0 = Some (p, j) \<Longrightarrow>
     p = run_candidate path parts i j \<and> ex p \<and> i < j \<and> j \<le> j0 \<and>
     (\<forall>j'. j < j' \<and> j' \<le> j0 \<longrightarrow> \<not> ex (run_candidate path parts i j'))"
proof (induction j0)
  case 0
  then show ?case by simp
next
  case (Suc j0)
  show ?case
  proof (cases "Suc j0 > i \<and> ex (run_candidate path parts i (Suc j0))")
    case True
    with Suc.prems show ?thesis
      by (auto simp: Let_def run_candidate_def)
  next
    case False
    with Suc.prems have "find_run ex parts path i j0 = Some (p, j)"
      by (auto simp: Let_def run_candidate_def split: if_splits)
    from Suc.IH [OF this] False show ?thesis
      by (auto simp: le_Suc_eq)
  qed
qed

lemma find_run_Max:
  assumes "find_run ex parts path i j0 = Some (p, j)"
  shows "j = Max {j'. i < j' \<and> j' \<le> j0 \<and> ex (run_candidate path parts i j')}"
proof -
  let ?S = "{j'. i < j' \<and> j' \<le> j0 \<and> ex (run_candidate path parts i j')}"
  from find_run_Some [OF assms] have j: "j \<in> ?S" and top: "\<And>j'. j' \<in> ?S \<Longrightarrow> j' \<le> j"
    by (auto simp: not_less [symmetric])
  have "finite ?S" by simp
  then show ?thesis using j top by (metis (no_types, lifting) Max_eqI)
qed


lemma decode_loop_step:
  assumes "i < length parts"
  shows "(if \<exists>j. i < j \<and> j \<le> length parts \<and> ex (run_candidate path parts i j)
       then decode_loop ex parts path i =
              decode_loop ex parts
                (run_candidate path parts i
                   (Max {j. i < j \<and> j \<le> length parts \<and> ex (run_candidate path parts i j)}))
                (Max {j. i < j \<and> j \<le> length parts \<and> ex (run_candidate path parts i j)})
       else decode_loop ex parts path i =
              decode_loop ex parts (path @ ''/'' @ parts ! i) (Suc i))"
proof (cases "find_run ex parts path i (length parts)")
  case None
  then have "\<not> (\<exists>j. i < j \<and> j \<le> length parts \<and> ex (run_candidate path parts i j))"
    by (simp add: find_run_None)
  moreover from None assms
  have "decode_loop ex parts path i = decode_loop ex parts (path @ ''/'' @ parts ! i) (Suc i)"
    by (simp add: decode_loop.simps [of ex parts path i])
  ultimately show ?thesis by auto
next
  case (Some r)
  obtain p j where r: "r = (p, j)" by (cases r)
  from Some r have run: "find_run ex parts path i (length parts) = Some (p, j)" by simp
  from find_run_Some [OF run]
  have p: "p = run_candidate path parts i j" and e: "ex (run_candidate path parts i j)"
    and b: "i < j" "j \<le> length parts" by auto
  have m: "Max {j. i < j \<and> j \<le> length parts \<and> ex (run_candidate path parts i j)} = j"
    using find_run_Max [OF run] by simp
  have "decode_loop ex parts path i = decode_loop ex parts p j"
    using run assms by (simp add: decode_loop.simps [of ex parts path i])
  with p e b m show ?thesis by auto
qed

lemma decode_loop_done: "length parts \<le> i \<Longrightarrow> decode_loop ex parts path i = path"
  by (simp add: decode_loop.simps [of ex parts path i])

lemma decodeDirName_my_project:
  assumes "ex ''/Users/dev/my-project''"
    and "\<not> ex ''/Users-dev-my-project''" and "\<not> ex ''/Users-dev-my''" and "\<not> ex ''/Users-dev''"
    and "\<not> ex ''/Users/dev-my-project''" and "\<not> ex ''/Users/dev-my''"
  shows "decodeDirName ex ''-Users-dev-my-project'' = ''/Users/dev/my-project''"
  using assms by (simp add: decodeDirName_def decode_loop.simps slice_def Let_def)

text \<open>
  C7 (as amended). For a name that starts with the filler \<open>-\<close>, \<open>decodeDirName\<close> runs the
  loop on the tokens of the rest. At a position \<open>i\<close> inside the tokens the loop takes the
  longest run \<open>parts[i..j)\<close> whose filler-joined candidate exists on disk and continues behind
  it; when no run has an existing candidate it appends the single token \<open>parts[i]\<close> and
  continues at \<open>i + 1\<close>; behind the last token it returns the path. For the encoded name of
  \<open>/Users/dev/my-project\<close> the result is that path when the directory exists and none of the
  longer or competing candidates \<open>/Users-dev-my-project\<close>, \<open>/Users-dev-my\<close>, \<open>/Users-dev\<close>,
  \<open>/Users/dev-my-project\<close>, \<open>/Users/dev-my\<close> does.
\<close>

theorem decodeDirName_greedy:
  "(i < length parts \<longrightarrow>
      (if \<exists>j. i < j \<and> j \<le> length parts \<and> ex (run_candidate path parts i j)
       then decode_loop ex parts path i =
              decode_loop ex parts
                (run_candidate path parts i
                   (Max {j. i < j \<and> j \<le> length parts \<and> ex (run_candidate path parts i j)}))
                (Max {j. i < j \<and> j \<le> length parts \<and> ex (run_candidate path parts i j)})
       else decode_loop ex parts path i =
              decode_loop ex parts (path @ ''/'' @ parts ! i) (Suc i)))
   \<and> (length parts \<le> i \<longrightarrow> decode_loop ex parts path i = path)
   \<and> decodeDirName ex (CHR ''-'' # rest) = decode_loop ex (split_on CHR ''-'' rest) [] 0
   \<and> (ex ''/Users/dev/my-project'' \<and>
       \<not> ex ''/Users-dev-my-project'' \<and> \<not> ex ''/Users-dev-my'' \<and> \<not> ex ''/Users-dev'' \<and>
       \<not> ex ''/Users/dev-my-project'' \<and> \<not> ex ''/Users/dev-my'' \<longrightarrow>
       decodeDirName ex ''-Users-dev-my-project'' = ''/Users/dev/my-project'')"
  using decode_loop_step [of i parts ex path] decode_loop_done [of parts i ex path]
    decodeDirName_my_project [of ex]
  by (simp add: decodeDirName_def)

theorem decodeDirName_greedy_witness:
  "decode_loop disk_project [''Users'', ''dev'', ''my'', ''project''] ''/Users/dev'' 2 =
     decode_loop disk_project [''Users'', ''dev'', ''my'', ''project''] ''/Users/dev/my-project'' 4
   \<and> decode_loop disk_project [''Users'', ''dev'', ''my'', ''project''] ''/Users/dev/my-project'' 4
       = ''/Users/dev/my-project''
   \<and> disk_project ''/Users/dev/my-project''
   \<and> decodeDirName disk_project ''-Users-dev-my-project'' = ''/Users/dev/my-project''"
proof -
  have "decodeDirName disk_project ''-Users-dev-my-project'' = ''/Users/dev/my-project''"
    using decodeDirName_greedy [of 0 "[]" disk_project "[]" "[]"]
    by (simp add: disk_project_def)
  then show ?thesis
    by (simp add: decode_loop.simps slice_def disk_project_def)
qed

text \<open>
  The claim as written (the path is recovered whenever the project directory exists) fails on
  a disk that also holds \<open>/Users/dev-my\<close>: the run \<open>dev-my\<close> is tried before \<open>dev\<close>.
\<close>

theorem decodeDirName_ambiguous_counterexample:
  "disk_both ''/Users/dev/my-project'' \<and>
   decodeDirName disk_both ''-Users-dev-my-project'' = ''/Users/dev-my/project''"
  by (simp add: decodeDirName_def decode_loop.simps slice_def disk_both_def)


section \<open>No redelivery by polling (C5)\<close>

lemma readNewLines_cases:
  "readNewLines parseLine d a filePath filename =
     (case readFile d filePath of
        Inl e \<Rightarrow> (Inl e, a)
      | Inr content \<Rightarrow>
          if length content \<le> offset_of a filePath then (Inr [], a)
          else (Inr (decode_lines parseLine (basename filename ''.jsonl'') (drop (offset_of a filePath) content)),
                a\<lparr>lastOffsets := (lastOffsets a)(filePath \<mapsto> length content)\<rparr>))"
  by (simp add: readNewLines_def offset_of_def decode_lines_def Let_def split: sum.splits)

lemma readNewLines_again:
  assumes "readNewLines parseLine d a filePath filename = (r, a')"
  shows "readNewLines parseLine d a' filePath filename =
           ((case r of Inl e \<Rightarrow> Inl e | Inr evs \<Rightarrow> Inr []), a')"
proof (cases "readFile d filePath")
  case (Inl e)
  with assms show ?thesis by (auto simp: readNewLines_cases)
next
  case (Inr content)
  show ?thesis
  proof (cases "length content \<le> offset_of a filePath")
    case True
    with Inr assms show ?thesis by (auto simp: readNewLines_cases)
  next
    case False
    with Inr assms have "a' = a\<lparr>lastOffsets := (lastOffsets a)(filePath \<mapsto> length content)\<rparr>"
      and "\<exists>evs. r = Inr evs"
      by (auto simp: readNewLines_cases)
    with Inr show ?thesis by (auto simp: readNewLines_cases offset_of_def)
  qed
qed

lemma readNewLines_consumed_self:
  "readNewLines parseLine d a filePath filename = (r, a1) \<Longrightarrow> consumed d a1 filePath"
  by (auto simp: readNewLines_cases consumed_def offset_of_def split: sum.splits if_splits)

lemma readNewLines_consumed_mono:
  "readNewLines parseLine d a filePath filename = (r, a1) \<Longrightarrow> consumed d a p \<Longrightarrow> consumed d a1 p"
  by (auto simp: readNewLines_cases consumed_def offset_of_def split: sum.splits if_splits)

lemma readNewLines_consumed:
  "consumed d a filePath \<Longrightarrow>
   readNewLines parseLine d a filePath filename =
     ((case readFile d filePath of Inl e \<Rightarrow> Inl e | Inr content \<Rightarrow> Inr []), a)"
  by (auto simp: readNewLines_cases consumed_def split: sum.splits)

lemma poll_files_consumed_mono:
  "poll_files parseLine d dir since fls events a = (evs, a') \<Longrightarrow> consumed d a p \<Longrightarrow> consumed d a' p"
proof (induction fls arbitrary: events a)
  case Nil
  then show ?case by simp
next
  case (Cons f fls)
  let ?fp = "path_join [dir, f]"
  obtain r a1 where r: "readNewLines parseLine d a ?fp f = (r, a1)"
    by (cases "readNewLines parseLine d a ?fp f")
  from readNewLines_consumed_mono [OF r Cons.prems(2)] have a1: "consumed d a1 p" .
  from Cons.prems(1) r a1 Cons.prems(2) Cons.IH show ?case
    by (auto simp: Let_def split: sum.splits if_splits)
qed

lemma poll_files_again:
  "poll_files parseLine d dir since fls events a = (evs, a') \<Longrightarrow>
   poll_files parseLine d dir since fls events2 a' = (events2, a')"
proof (induction fls arbitrary: events a events2)
  case Nil
  then show ?case by simp
next
  case (Cons f fls)
  let ?fp = "path_join [dir, f]"
  show ?case
  proof (cases "stat d ?fp")
    case (Inl e)
    with Cons.prems show ?thesis by simp
  next
    case (Inr st)
    show ?thesis
    proof (cases "mtimeMs st < since")
      case True
      with Inr Cons.prems have "poll_files parseLine d dir since fls events a = (evs, a')"
        by simp
      from Cons.IH [OF this] True Inr show ?thesis by simp
    next
      case False
      obtain r a1 where r: "readNewLines parseLine d a ?fp f = (r, a1)"
        by (cases "readNewLines parseLine d a ?fp f")
      show ?thesis
      proof (cases r)
        case (Inl e)
        with r Inr False Cons.prems have "a' = a1" by simp
        with readNewLines_again [OF r] Inl Inr False show ?thesis by simp
      next
        case new: (Inr newEvents)
        with r Inr False Cons.prems
        have rest: "poll_files parseLine d dir since fls (events @ newEvents) a1 = (evs, a')"
          by simp
        from r new have "\<exists>content. readFile d ?fp = Inr content"
          by (auto simp: readNewLines_cases split: sum.splits)
        moreover have "consumed d a' ?fp"
          using poll_files_consumed_mono [OF rest readNewLines_consumed_self [OF r]] .
        ultimately have "readNewLines parseLine d a' ?fp f = (Inr [], a')"
          by (auto simp: readNewLines_consumed)
        with Cons.IH [OF rest, of events2] Inr False show ?thesis by simp
      qed
    qed
  qed
qed

lemma poll_again:
  "poll parseLine d env a project since = (evs, a') \<Longrightarrow> poll parseLine d env a' project since = ([], a')"
  by (auto simp: poll_def poll_files_again split: option.splits sum.splits)

text \<open>
  C5. A second \<open>readNewLines\<close> over the same log unit on the same disk returns no events
  (and throws again where the first call threw); what a call decodes is the content past the
  unit's last-read offset, which it then moves to the end of the content; and a second
  \<open>poll\<close> of a project over the same disk, from the adapter the first poll left, returns no
  events and leaves the adapter as it is.
\<close>

theorem poll_no_redelivery:
  "(readNewLines parseLine d a filePath filename = (r, a') \<longrightarrow>
      readNewLines parseLine d a' filePath filename =
        ((case r of Inl e \<Rightarrow> Inl e | Inr evs \<Rightarrow> Inr []), a'))
   \<and> (readFile d filePath = Inr (seen @ fresh) \<and> lastOffsets a filePath = Some (length seen) \<and> fresh \<noteq> [] \<longrightarrow>
      readNewLines parseLine d a filePath filename =
        (Inr (decode_lines parseLine (basename filename ''.jsonl'') fresh),
         a\<lparr>lastOffsets := (lastOffsets a)(filePath \<mapsto> length (seen @ fresh))\<rparr>))
   \<and> (poll parseLine d env a project since = (evs, a') \<longrightarrow>
      poll parseLine d env a' project since = ([], a'))"
  using readNewLines_again [of parseLine d a filePath filename r a']
    poll_again [of parseLine d env a project since evs a']
  by (auto simp: readNewLines_cases offset_of_def)

theorem poll_no_redelivery_witness:
  "fst (poll tag_line log_disk log_env \<lparr>lastOffsets = Map.empty\<rparr> ''/w/app'' 0)
     = [(''s1'', ''a''), (''s1'', ''b'')]
   \<and> fst (poll tag_line log_disk log_env
            (snd (poll tag_line log_disk log_env \<lparr>lastOffsets = Map.empty\<rparr> ''/w/app'' 0))
            ''/w/app'' 0) = []"
proof -
  obtain evs a' where p: "poll tag_line log_disk log_env \<lparr>lastOffsets = Map.empty\<rparr> ''/w/app'' 0 = (evs, a')"
    by (cases "poll tag_line log_disk log_env \<lparr>lastOffsets = Map.empty\<rparr> ''/w/app'' 0")
  have first: "fst (poll tag_line log_disk log_env \<lparr>lastOffsets = Map.empty\<rparr> ''/w/app'' 0)
     = [(''s1'', ''a''), (''s1'', ''b'')]"
    by (simp add: poll_def findProjectDir_def log_disk_def log_env_def home_of_def path_join_def
        path_normalize_def replace_all_def endsWith_def readNewLines_def basename_def trim_def
        is_space_def tag_line_def Let_def)
  from poll_no_redelivery [of tag_line log_disk "\<lparr>lastOffsets = Map.empty\<rparr>" "[]" "[]" "Inr []" a' "[]" "[]" log_env "''/w/app''" 0 evs] p
  have "poll tag_line log_disk log_env a' ''/w/app'' 0 = ([], a')"
    by simp
  with p first show ?thesis by simp
qed


section \<open>The last matching ignore rule wins (C6)\<close>

lemma ignored_by_last:
  "ignored_by patterns ignored path =
     (case rev (filter (matchPattern path) patterns) of
        [] \<Rightarrow> ignored
      | m # ms \<Rightarrow> \<not> negated m)"
proof (induction patterns arbitrary: ignored)
  case Nil
  then show ?case by simp
next
  case (Cons p patterns)
  show ?case
  proof (cases "matchPattern path p")
    case True
    then show ?thesis
      by (cases "rev (filter (matchPattern path) patterns)") (simp_all add: Cons.IH)
  next
    case False
    then show ?thesis by (simp add: Cons.IH)
  qed
qed

lemma ignored_by_snoc:
  "ignored_by (patterns @ [p]) ignored path =
     (if matchPattern path p then \<not> negated p else ignored_by patterns ignored path)"
  by (simp add: ignored_by_last)

lemma hardcoded_compile: "fst (push_patterns HARDCODED_IGNORES []) = None"
  by code_simp

lemma compile_rules_gitignore:
  assumes "readFile d (path_join [project, ''.gitignore'']) = Inr content"
    and "readFile d (path_join [project, ''.git'', ''info'', ''exclude'']) = Inl e"
    and "fst (push_patterns (rule_lines content) (snd (push_patterns HARDCODED_IGNORES []))) = None"
  shows "compile_rules d project = Inr (rules_of content)"
proof -
  obtain hard where h: "push_patterns HARDCODED_IGNORES [] = (None, hard)"
    using hardcoded_compile by (cases "push_patterns HARDCODED_IGNORES []") simp
  obtain ps where p: "push_patterns (rule_lines content) hard = (None, ps)"
    using assms(3) h by (cases "push_patterns (rule_lines content) hard") simp
  show ?thesis
    using assms(1,2) h p by (simp add: compile_rules_def rules_of_def)
qed

lemma log_rules_compile:
  "fst (push_patterns (rule_lines log_rules) (snd (push_patterns HARDCODED_IGNORES []))) = None"
  by code_simp

lemma build_rules_compile:
  "fst (push_patterns (rule_lines ''build/'') (snd (push_patterns HARDCODED_IGNORES []))) = None"
  by code_simp

lemma log_rules_verdicts:
  "ignored_by (rules_of log_rules) False ''debug.log'' \<and>
   \<not> ignored_by (rules_of log_rules) False ''keep.log''"
  by code_simp

lemma build_rules_verdict: "ignored_by (rules_of ''build/'') False ''build/output.js''"
  by code_simp

text \<open>
  C6. The matcher's verdict on a path is that of the last rule, in declaration order, that
  matches it: ignored unless that rule is negated, and not ignored when no rule matches. So
  a rule appended to a list overrides the list where it matches, in both directions. With
  the rules \<open>*.log\<close> then \<open>!keep.log\<close> in \<open>.gitignore\<close>, \<open>debug.log\<close> is ignored and
  \<open>keep.log\<close> is not; with the rule \<open>build/\<close>, \<open>build/output.js\<close> is ignored.
\<close>

theorem ignore_last_match_wins:
  "ignored_by patterns False path =
     (case rev (filter (matchPattern path) patterns) of
        [] \<Rightarrow> False
      | m # ms \<Rightarrow> \<not> negated m)
   \<and> ignored_by (patterns @ [p]) False path =
       (if matchPattern path p then \<not> negated p else ignored_by patterns False path)
   \<and> (readFile d (path_join [project, ''.gitignore'']) = Inr log_rules \<and>
       readFile d (path_join [project, ''.git'', ''info'', ''exclude'']) = Inl e \<longrightarrow>
       (\<exists>m. createIgnoreMatcher d project = Inr m \<and> m ''debug.log'' \<and> \<not> m ''keep.log''))
   \<and> (readFile d (path_join [project, ''.gitignore'']) = Inr ''build/'' \<and>
       readFile d (path_join [project, ''.git'', ''info'', ''exclude'']) = Inl e \<longrightarrow>
       (\<exists>m. createIgnoreMatcher d project = Inr m \<and> m ''build/output.js''))"
proof -
  have one: "ignored_by patterns False path =
     (case rev (filter (matchPattern path) patterns) of [] \<Rightarrow> False | m # ms \<Rightarrow> \<not> negated m)"
    by (rule ignored_by_last)
  have two: "ignored_by (patterns @ [p]) False path =
       (if matchPattern path p then \<not> negated p else ignored_by patterns False path)"
    by (rule ignored_by_snoc)
  have three: "\<exists>m. createIgnoreMatcher d project = Inr m \<and> m ''debug.log'' \<and> \<not> m ''keep.log''"
    if "readFile d (path_join [project, ''.gitignore'']) = Inr log_rules"
      and "readFile d (path_join [project, ''.git'', ''info'', ''exclude'']) = Inl e"
    using compile_rules_gitignore [OF that log_rules_compile] log_rules_verdicts
    by (simp add: createIgnoreMatcher_def)
  have four: "\<exists>m. createIgnoreMatcher d project = Inr m \<and> m ''build/output.js''"
    if "readFile d (path_join [project, ''.gitignore'']) = Inr ''build/''"
      and "readFile d (path_join [project, ''.git'', ''info'', ''exclude'']) = Inl e"
    using compile_rules_gitignore [OF that build_rules_compile] build_rules_verdict
    by (simp add: createIgnoreMatcher_def)
  from one two three four show ?thesis by blast
qed

lemma rules_disk_reads:
  "readFile (rules_disk content) (path_join [''/w'', ''.gitignore'']) = Inr content"
  "readFile (rules_disk content) (path_join [''/w'', ''.git'', ''info'', ''exclude''])
     = Inl (SystemError ''ENOENT'')"
  by (simp_all add: rules_disk_def path_join_def path_normalize_def)

theorem ignore_last_match_wins_witness:
  "(\<exists>m. createIgnoreMatcher (rules_disk log_rules) ''/w'' = Inr m \<and> m ''debug.log'' \<and> \<not> m ''keep.log'')
   \<and> (\<exists>m. createIgnoreMatcher (rules_disk ''build/'') ''/w'' = Inr m \<and> m ''build/output.js'')"
  using ignore_last_match_wins [of "[]" "[]" "\<lparr>negated = False, dirOnly = False, anchored = False, regex = Eps\<rparr>"
      "rules_disk log_rules" "''/w''" "SystemError ''ENOENT''"]
    ignore_last_match_wins [of "[]" "[]" "\<lparr>negated = False, dirOnly = False, anchored = False, regex = Eps\<rparr>"
      "rules_disk ''build/''" "''/w''" "SystemError ''ENOENT''"]
    rules_disk_reads [of log_rules] rules_disk_reads [of "''build/''"]
  by simp


section \<open>The line format of the event log\<close>

lemma hex_val_hex_char: "k < 16 \<Longrightarrow> hex_val (hex_char k) = Some k"
proof -
  assume "k < 16"
  then consider "k < 10" | "10 \<le> k" "k < 16" by linarith
  then show ?thesis
  proof cases
    case 1
    then show ?thesis by (simp add: hex_val_def hex_char_def Let_def)
  next
    case 2
    then show ?thesis by (simp add: hex_val_def hex_char_def Let_def)
  qed
qed

lemma hex_val_zero: "hex_val CHR ''0'' = Some 0"
  by (simp add: hex_val_def)

lemma hex4_control:
  assumes "n < 32"
  shows "hex4 CHR ''0'' CHR ''0'' (hex_char (n div 16)) (hex_char (n mod 16)) = Some n"
proof -
  from assms have "n div 16 < 16" by simp
  then show ?thesis
    by (simp add: hex4_def hex_val_zero hex_val_hex_char)
qed

lemma parse_string_body_escape:
  "parse_string_body (escape_char c @ t) = cons_result c (parse_string_body t)"
proof -
  consider (quote) "c = CHR 0x22" | (backslash) "c = CHR 0x5C"
    | (short) "c \<in> {CHR 0x08, CHR 0x09, CHR 0x0A, CHR 0x0C, CHR 0x0D}"
    | (control) "c \<notin> {CHR 0x22, CHR 0x5C, CHR 0x08, CHR 0x09, CHR 0x0A, CHR 0x0C, CHR 0x0D}"
        "(of_char c :: nat) < 32"
    | (plain) "c \<noteq> CHR 0x22" "c \<noteq> CHR 0x5C" "\<not> (of_char c :: nat) < 32"
    by auto
  then show ?thesis
  proof cases
    case quote
    then show ?thesis by (simp add: escape_char_def unescape_char_def)
  next
    case backslash
    then show ?thesis by (simp add: escape_char_def unescape_char_def)
  next
    case short
    then show ?thesis by (auto simp: escape_char_def unescape_char_def)
  next
    case control
    then show ?thesis
      by (simp add: escape_char_def hex4_control)
  next
    case plain
    then have "escape_char c = [c]"
      by (auto simp: escape_char_def)
    with plain show ?thesis by simp
  qed
qed

lemma parse_string_body_quoted:
  "parse_string_body (concat (map escape_char s) @ CHR 0x22 # rest) = Inr (s, rest)"
  by (induction s) (simp_all add: parse_string_body_escape cons_result_def)

lemma digit_char_props:
  assumes "d < 10"
  shows "is_digit (digit_char d)" and "(of_char (digit_char d) :: nat) - 48 = d"
    and "digit_char d \<noteq> CHR ''-''" and "d \<noteq> 0 \<Longrightarrow> digit_char d \<noteq> CHR ''0''"
proof -
  have v: "(of_char (digit_char d) :: nat) = 48 + d"
    using assms by (simp add: digit_char_def)
  show "is_digit (digit_char d)" using assms v by (simp add: is_digit_def)
  show "(of_char (digit_char d) :: nat) - 48 = d" using v by simp
  show "digit_char d \<noteq> CHR ''-''"
  proof
    assume "digit_char d = CHR ''-''"
    then have "(of_char (digit_char d) :: nat) = of_char CHR ''-''" by simp
    with v show False by simp
  qed
  show "digit_char d \<noteq> CHR ''0''" if "d \<noteq> 0"
  proof
    assume "digit_char d = CHR ''0''"
    then have "(of_char (digit_char d) :: nat) = of_char CHR ''0''" by simp
    with v that show False by simp
  qed
qed

lemma show_nat_digits: "c \<in> set (show_nat n) \<Longrightarrow> is_digit c"
proof (induction n arbitrary: c rule: show_nat.induct)
  case (1 n)
  show ?case
  proof (cases "n < 10")
    case True
    with "1.prems" show ?thesis
      by (simp add: show_nat.simps [of n] digit_char_props)
  next
    case False
    with "1.prems" "1.IH" show ?thesis
      by (auto simp: show_nat.simps [of n] digit_char_props)
  qed
qed

lemma show_nat_nonempty: "show_nat n \<noteq> []"
  by (simp add: show_nat.simps [of n])

lemma show_nat_hd: "0 < n \<Longrightarrow> hd (show_nat n) \<noteq> CHR ''0''"
proof (induction n rule: show_nat.induct)
  case (1 n)
  show ?case
  proof (cases "n < 10")
    case True
    with "1.prems" show ?thesis
      by (simp add: show_nat.simps [of n] digit_char_props)
  next
    case False
    then have "0 < n div 10" by simp
    with False "1.IH" show ?thesis
      by (simp add: show_nat.simps [of n] show_nat_nonempty)
  qed
qed

lemma digits_val_append:
  "\<forall>c \<in> set ds. is_digit c \<Longrightarrow>
   digits_val acc (ds @ rest) = digits_val (foldl (\<lambda>a c. a * 10 + (of_char c - 48)) acc ds) rest"
  by (induction ds arbitrary: acc) simp_all

lemma digits_val_end: "num_end rest \<Longrightarrow> digits_val acc rest = (acc, rest)"
  by (cases rest) (simp_all add: num_end_def)

lemma show_nat_value:
  "foldl (\<lambda>a c. a * 10 + (of_char c - 48)) acc (show_nat n) = acc * 10 ^ length (show_nat n) + n"
proof (induction n arbitrary: acc rule: show_nat.induct)
  case (1 n)
  show ?case
  proof (cases "n < 10")
    case True
    then show ?thesis
      by (simp add: show_nat.simps [of n] digit_char_props)
  next
    case False
    then have "n mod 10 < 10" by simp
    with False "1.IH" [of acc] show ?thesis
      by (simp add: show_nat.simps [of n] digit_char_props algebra_simps)
  qed
qed

lemma digits_val_show_nat:
  "num_end rest \<Longrightarrow> digits_val 0 (show_nat n @ rest) = (n, rest)"
  using show_nat_digits [of _ n]
  by (simp add: digits_val_append show_nat_value digits_val_end)

lemma parse_nat_lit_show_nat:
  assumes "num_end rest"
  shows "parse_nat_lit (show_nat n @ rest) = Inr (n, rest)"
proof -
  obtain c cs where s: "show_nat n = c # cs"
    using show_nat_nonempty [of n] by (cases "show_nat n") auto
  have d: "is_digit c" using show_nat_digits [of c n] s by simp
  have lead: "\<not> (c = CHR ''0'' \<and> cs @ rest \<noteq> [] \<and> is_digit (hd (cs @ rest)))"
  proof (cases "n = 0")
    case True
    then have "show_nat n = [digit_char 0]" by (simp add: show_nat.simps [of 0])
    with s have "cs = []" by simp
    with assms show ?thesis by (auto simp: num_end_def)
  next
    case False
    then show ?thesis using show_nat_hd [of n] s by simp
  qed
  have v: "digits_val 0 (c # cs @ rest) = (n, rest)"
    using digits_val_show_nat [OF assms, of n] s by simp
  have e: "\<not> (rest \<noteq> [] \<and> hd rest \<in> set ''.eE'')"
    using assms by (auto simp: num_end_def)
  show ?thesis
    unfolding parse_nat_lit_def s using d lead v e by (simp del: digits_val.simps)
qed

lemma parse_number_show_int:
  assumes "num_end rest"
  shows "parse_number (show_int i @ rest) = Inr (i, rest)"
proof (cases "i < 0")
  case True
  then show ?thesis
    by (simp add: parse_number_def show_int_def parse_nat_lit_show_nat [OF assms])
next
  case False
  obtain c cs where s: "show_nat (nat i) = c # cs"
    using show_nat_nonempty [of "nat i"] by (cases "show_nat (nat i)") auto
  have "is_digit c" using show_nat_digits [of c "nat i"] s by simp
  then have "c \<noteq> CHR ''-''" by (auto simp: is_digit_def)
  with False s parse_nat_lit_show_nat [OF assms, of "nat i"] show ?thesis
    by (simp add: parse_number_def show_int_def)
qed

lemma sep_next_num_end: "sep_next rest \<Longrightarrow> num_end rest"
  by (auto simp: sep_next_def num_end_def is_digit_def)

lemma skip_ws_nonspace: "\<not> is_json_ws c \<Longrightarrow> skip_ws (c # cs) = c # cs"
  by (simp add: skip_ws_def)

lemma skip_ws_sep: "sep_next rest \<Longrightarrow> skip_ws rest = rest"
  by (cases rest) (auto simp: sep_next_def skip_ws_def is_json_ws_def)

lemma digit_not_ws: "is_digit c \<Longrightarrow> \<not> is_json_ws c"
  by (auto simp: is_digit_def is_json_ws_def)

lemma show_int_hd:
  obtains c cs where "show_int i = c # cs" and "is_digit c \<or> c = CHR ''-''"
proof (cases "i < 0")
  case True
  then show ?thesis using that by (simp add: show_int_def)
next
  case False
  obtain c cs where s: "show_nat (nat i) = c # cs"
    using show_nat_nonempty [of "nat i"] by (cases "show_nat (nat i)") auto
  have "is_digit c" using show_nat_digits [of c "nat i"] s by simp
  with False s that show ?thesis by (simp add: show_int_def)
qed

lemma parse_value_str:
  "parse_value (Suc n) (quote_string s @ rest) = Inr (JStr s, rest)"
  by (simp add: quote_string_def skip_ws_nonspace is_json_ws_def parse_string_body_quoted)

lemma parse_value_num:
  assumes "sep_next rest"
  shows "parse_value (Suc n) (show_int i @ rest) = Inr (JNum i, rest)"
proof -
  obtain c cs where s: "show_int i = c # cs" and c: "is_digit c \<or> c = CHR ''-''"
    by (rule show_int_hd)
  from c have ws: "\<not> is_json_ws c" by (auto simp: is_digit_def is_json_ws_def)
  from c have ne: "c \<noteq> CHR 0x22" "c \<noteq> CHR ''{''" "c \<noteq> CHR ''[''" "c \<noteq> CHR ''t''" "c \<noteq> CHR ''f''"
    "c \<noteq> CHR ''n''"
    by (auto simp: is_digit_def)
  have "parse_number (c # cs @ rest) = Inr (i, rest)"
    using parse_number_show_int [OF sep_next_num_end [OF assms], of i] s by simp
  with ws ne show ?thesis
    by (simp add: s skip_ws_nonspace)
qed

lemma parse_value_scalar:
  "scalar v \<Longrightarrow> sep_next rest \<Longrightarrow> parse_value (Suc n) (render v @ rest) = Inr (v, rest)"
  by (cases v) (simp_all add: parse_value_str parse_value_num del: parse_value.simps)

lemma quote_string_Cons: "quote_string s = CHR 0x22 # concat (map escape_char s) @ [CHR 0x22]"
  by (simp add: quote_string_def)

lemma parse_members_flat:
  "ms \<noteq> [] \<Longrightarrow> list_all scalar (map snd ms) \<Longrightarrow> length ms < f \<Longrightarrow>
   parse_members f (render_members ms @ CHR ''}'' # rest) = Inr (ms, rest)"
proof (induction ms arbitrary: f)
  case Nil
  then show ?case by simp
next
  case (Cons m ms)
  obtain k v where m: "m = (k, v)" by (cases m)
  from Cons.prems obtain n where f: "f = Suc n" and n: "length ms < n"
    by (cases f) auto
  then obtain n' where n': "n = Suc n'" by (cases n) auto
  from Cons.prems m have sv: "scalar v" and rest_flat: "list_all scalar (map snd ms)"
    by simp_all
  let ?tail = "(if ms = [] then [] else '','' @ render_members ms) @ CHR ''}'' # rest"
  have tail: "sep_next ?tail" by (simp add: sep_next_def)
  have key: "parse_string_body (concat (map escape_char k) @ CHR 0x22 # CHR '':'' # render v @ ?tail)
      = Inr (k, CHR '':'' # render v @ ?tail)"
    by (rule parse_string_body_quoted)
  have val: "parse_value n (render v @ ?tail) = Inr (v, ?tail)"
    unfolding n' by (rule parse_value_scalar [OF sv tail])
  have colon: "skip_ws (CHR '':'' # render v @ ?tail) = CHR '':'' # render v @ ?tail"
    by (simp add: skip_ws_nonspace is_json_ws_def)
  have shape: "render_members (m # ms) @ CHR ''}'' # rest
      = CHR 0x22 # concat (map escape_char k) @ CHR 0x22 # CHR '':'' # render v @ ?tail"
    by (simp add: m quote_string_Cons)
  show ?case
  proof (cases "ms = []")
    case True
    with key val colon show ?thesis
      unfolding shape f
      by (simp add: skip_ws_nonspace is_json_ws_def m del: parse_value.simps)
  next
    case False
    from Cons.IH [OF False rest_flat n]
    have "parse_members n (render_members ms @ CHR ''}'' # rest) = Inr (ms, rest)" .
    with False key val colon show ?thesis
      unfolding shape f
      by (simp add: skip_ws_nonspace is_json_ws_def m del: parse_value.simps)
  qed
qed

lemma render_members_length: "length ms \<le> length (render_members ms)"
proof (induction ms)
  case Nil
  then show ?case by simp
next
  case (Cons m ms)
  have "0 < length (quote_string (fst m))" by (simp add: quote_string_def)
  with Cons show ?case by (cases "ms = []") auto
qed

lemma render_members_hd:
  "ms \<noteq> [] \<Longrightarrow> \<exists>t. render_members ms = CHR 0x22 # t"
  by (cases ms) (auto simp: quote_string_def)

lemma JSON_parse_flat:
  assumes "ms \<noteq> []" and "list_all scalar (map snd ms)"
  shows "JSON_parse (render (JObj ms)) = Inr (JObj ms)"
proof -
  obtain t where t: "render_members ms = CHR 0x22 # t"
    using render_members_hd [OF assms(1)] by auto
  define f where "f = Suc (Suc (length (render_members ms)))"
  have fuel: "length ms < f"
    using render_members_length [of ms] by (simp add: f_def)
  have m: "parse_members f (CHR 0x22 # t @ ''}'') = Inr (ms, [])"
    using parse_members_flat [OF assms fuel, of "[]"] t by simp
  have "parse_value (Suc f) (CHR ''{'' # CHR 0x22 # t @ ''}'') = Inr (JObj ms, [])"
    using m
    by (simp add: skip_ws_nonspace is_json_ws_def del: parse_members.simps)
  then show ?thesis
    using t by (simp add: JSON_parse_def skip_ws_def f_def del: parse_value.simps)
qed

lemma field_simps:
  "field [] k = None"
  "field (ms @ [(k', v)]) k = (if k = k' then Some v else field ms k)"
  by (simp_all add: field_def)

lemma decode_encode_event: "decode_event (encode_event e) = Some e"
proof (cases e)
  case (SessionStartEvent sid ag ts pr)
  then show ?thesis
    by (cases pr) (simp_all add: decode_event_def str_field_def num_field_def opt_str_field_def
        field_def opt_str_def)
next
  case (SessionEndEvent sid ts exitCode)
  then show ?thesis
    by (cases exitCode) (simp_all add: decode_event_def str_field_def num_field_def opt_num_field_def
        field_def opt_num_def)
next
  case (FileEditEvent sid ts path added removed tool)
  then show ?thesis
    by (cases tool) (simp_all add: decode_event_def str_field_def num_field_def opt_str_field_def
        field_def opt_str_def)
next
  case (CommandRunEvent sid ts command exitCode out err)
  then show ?thesis
    by (cases out; cases err) (simp_all add: decode_event_def str_field_def num_field_def opt_str_field_def
        field_def opt_str_def)
next
  case (TestResultEvent sid ts framework passed failed skipped raw)
  then show ?thesis
    by (cases raw) (simp_all add: decode_event_def str_field_def num_field_def opt_str_field_def
        field_def opt_str_def)
next
  case (UserInterventionEvent sid ts sig detail)
  then show ?thesis
    by (cases detail; cases sig) (simp_all add: decode_event_def str_field_def num_field_def opt_str_field_def
        field_def opt_str_def signal_named_def)
qed

lemma encode_event_flat:
  "\<exists>ms. encode_event e = JObj ms \<and> ms \<noteq> [] \<and> list_all scalar (map snd ms)"
  by (cases e) (auto simp: opt_str_def opt_num_def split: option.splits)

lemma JSON_event_roundtrip: "JSON_parse_event (JSON_stringify_event e) = Inr e"
proof -
  obtain ms where "encode_event e = JObj ms" "ms \<noteq> []" "list_all scalar (map snd ms)"
    using encode_event_flat by blast
  then show ?thesis
    using JSON_parse_flat [of ms] decode_encode_event [of e]
    by (simp add: JSON_parse_event_def JSON_stringify_event_def)
qed

lemma hex_char_no_nl: "k < 16 \<Longrightarrow> hex_char k \<noteq> CHR 0x0A"
proof
  assume k: "k < 16" and "hex_char k = CHR 0x0A"
  then have "(of_char (hex_char k) :: nat) = 10" by simp
  with k show False by (simp add: hex_char_def split: if_splits)
qed

lemma escape_char_no_nl: "CHR 0x0A \<notin> set (escape_char c)"
proof (cases "(of_char c :: nat) < 32")
  case True
  then have "(of_char c :: nat) div 16 < 16" "(of_char c :: nat) mod 16 < 16" by simp_all
  then have "hex_char ((of_char c :: nat) div 16) \<noteq> CHR 0x0A"
    and "hex_char ((of_char c :: nat) mod 16) \<noteq> CHR 0x0A"
    by (simp_all add: hex_char_no_nl)
  then have "CHR 0x0A \<noteq> hex_char ((of_char c :: nat) div 16)"
    and "CHR 0x0A \<noteq> hex_char ((of_char c :: nat) mod 16)"
    by (simp_all add: eq_commute)
  then show ?thesis
    by (simp add: escape_char_def)
next
  case False
  then have "c \<noteq> CHR 0x0A" by auto
  with False show ?thesis by (auto simp: escape_char_def)
qed

lemma quote_string_no_nl: "CHR 0x0A \<notin> set (quote_string s)"
  by (auto simp: quote_string_def escape_char_no_nl)

lemma show_int_no_nl: "CHR 0x0A \<notin> set (show_int i)"
proof
  assume "CHR 0x0A \<in> set (show_int i)"
  then have "CHR 0x0A \<in> set (show_nat (nat (- i))) \<or> CHR 0x0A \<in> set (show_nat (nat i))"
    by (auto simp: show_int_def split: if_splits)
  then have "is_digit (CHR 0x0A)" using show_nat_digits by blast
  then show False by (simp add: is_digit_def)
qed

lemma render_scalar_no_nl: "scalar v \<Longrightarrow> CHR 0x0A \<notin> set (render v)"
  by (cases v) (simp_all add: quote_string_no_nl show_int_no_nl)

lemma render_members_no_nl:
  "list_all scalar (map snd ms) \<Longrightarrow> CHR 0x0A \<notin> set (render_members ms)"
  by (induction ms) (auto simp: quote_string_no_nl render_scalar_no_nl)

lemma stringify_event_no_nl: "CHR 0x0A \<notin> set (JSON_stringify_event e)"
proof -
  obtain ms where "encode_event e = JObj ms" "list_all scalar (map snd ms)"
    using encode_event_flat by blast
  then show ?thesis
    by (simp add: JSON_stringify_event_def render_members_no_nl)
qed

lemma trim_nonblank: "\<not> is_space c \<Longrightarrow> trim (c # cs) \<noteq> []"
  by (auto simp: trim_def dropWhile_eq_Nil_conv)

lemma stringify_event_nonblank: "trim (JSON_stringify_event e) \<noteq> []"
proof -
  obtain ms where "encode_event e = JObj ms" using encode_event_flat by blast
  then have "JSON_stringify_event e = CHR ''{'' # render_members ms @ ''}''"
    by (simp add: JSON_stringify_event_def)
  then show ?thesis by (simp add: trim_nonblank is_space_def)
qed

lemma split_on_line: "c \<notin> set l \<Longrightarrow> split_on c (l @ c # rest) = l # split_on c rest"
  by (induction l) (auto split: list.splits)

lemma split_on_lines:
  "\<forall>l \<in> set ls. c \<notin> set l \<Longrightarrow> split_on c (concat (map (\<lambda>l. l @ [c]) ls)) = ls @ [[]]"
  by (induction ls) (simp_all add: split_on_line)

lemma event_lines_append: "event_lines (es @ es') = event_lines es @ event_lines es'"
  by (simp add: event_lines_def)

lemma parse_lines_stringify: "parse_lines (map JSON_stringify_event es) = Inr es"
  by (induction es) (simp_all add: JSON_event_roundtrip)

lemma read_back_lines:
  "parse_lines (filter (\<lambda>line. trim line \<noteq> []) (split_on CHR 0x0A (event_lines es))) = Inr es"
proof -
  have "event_lines es = concat (map (\<lambda>l. l @ [CHR 0x0A]) (map JSON_stringify_event es))"
    by (simp add: event_lines_def comp_def)
  moreover have "\<forall>l \<in> set (map JSON_stringify_event es). CHR 0x0A \<notin> set l"
    by (auto simp: stringify_event_no_nl)
  ultimately have "split_on CHR 0x0A (event_lines es) = map JSON_stringify_event es @ [[]]"
    by (simp only: split_on_lines)
  moreover have "filter (\<lambda>line. trim line \<noteq> []) (map JSON_stringify_event es) =
      map JSON_stringify_event es"
    by (rule filter_True) (auto simp: stringify_event_nonblank)
  then have "filter (\<lambda>line. trim line \<noteq> []) (map JSON_stringify_event es @ [[]])
      = map JSON_stringify_event es"
    by (simp add: trim_def)
  ultimately show ?thesis by (simp add: parse_lines_stringify)
qed

section \<open>Appended events are read back in order (C4)\<close>

lemma dirs_added_refl: "dirs_added fs fs"
  by (simp add: dirs_added_def)

lemma dirs_added_trans:
  assumes ab: "dirs_added a b" and bc: "dirs_added b c"
  shows "dirs_added a c"
  unfolding dirs_added_def
proof (intro conjI allI)
  show "write_fault c = write_fault a"
    using ab bc by (simp add: dirs_added_def)
next
  fix p
  from ab have "nodes b p = nodes a p \<or> (nodes a p = None \<and> nodes b p = Some Directory)"
    by (simp add: dirs_added_def)
  moreover from bc
  have "nodes c p = nodes b p \<or> (nodes b p = None \<and> nodes c p = Some Directory)"
    by (simp add: dirs_added_def)
  ultimately show "nodes c p = nodes a p \<or> (nodes a p = None \<and> nodes c p = Some Directory)"
    by auto
qed

lemma dirs_added_content:
  assumes "dirs_added fs fs'"
  shows "file_content fs' = file_content fs"
proof (rule ext)
  fix p
  from assms have "nodes fs' p = nodes fs p \<or> (nodes fs p = None \<and> nodes fs' p = Some Directory)"
    by (simp add: dirs_added_def)
  then show "file_content fs' p = file_content fs p"
    by (auto simp: file_content_def)
qed

lemma make_dirs_added: "make_dirs fs qs = (r, fs') \<Longrightarrow> dirs_added fs fs'"
proof (induction qs arbitrary: fs)
  case Nil
  then show ?case by (simp add: dirs_added_refl)
next
  case (Cons q qs)
  show ?case
  proof (cases "nodes fs q")
    case None
    show ?thesis
    proof (cases "write_fault fs q")
      case wf: None
      let ?fs1 = "fs\<lparr>nodes := (nodes fs)(q \<mapsto> Directory)\<rparr>"
      from Cons.prems None wf have "make_dirs ?fs1 qs = (r, fs')" by simp
      from Cons.IH [OF this] have "dirs_added ?fs1 fs'" .
      moreover have "dirs_added fs ?fs1" using None by (simp add: dirs_added_def)
      ultimately show ?thesis by (rule dirs_added_trans [rotated])
    next
      case (Some e)
      with Cons.prems None show ?thesis by (simp add: dirs_added_refl)
    qed
  next
    case (Some nd)
    with Cons.prems Cons.IH show ?thesis
      by (cases nd) (auto simp: dirs_added_refl)
  qed
qed

lemma ensure_dirs_added: "ensure_dirs fs subs = (r, fs') \<Longrightarrow> dirs_added fs fs'"
proof (induction subs arbitrary: fs)
  case Nil
  then show ?case by (simp add: dirs_added_refl)
next
  case (Cons sub subs)
  show ?case
  proof (cases "fs_exists fs sub")
    case True
    with Cons show ?thesis by simp
  next
    case False
    obtain r1 fs1 where m: "fs_mkdir_recursive fs sub = (r1, fs1)"
      by (cases "fs_mkdir_recursive fs sub")
    then have a: "dirs_added fs fs1"
      by (simp add: fs_mkdir_recursive_def make_dirs_added)
    show ?thesis
    proof (cases r1)
      case None
      with Cons.prems False m have "ensure_dirs fs1 subs = (r, fs')" by simp
      from Cons.IH [OF this] a show ?thesis by (rule dirs_added_trans [rotated])
    next
      case (Some e)
      with Cons.prems False m a show ?thesis by simp
    qed
  qed
qed

lemma init_added:
  "init st fs = (r, st', fs') \<Longrightarrow> dirs_added fs fs' \<and> root st' = root st"
proof (cases "initialized st")
  case True
  then show "init st fs = (r, st', fs') \<Longrightarrow> ?thesis"
    by (auto simp: init_def dirs_added_refl)
next
  case False
  obtain r1 fs1 where e: "ensureSlagentDir (root st) fs = (r1, fs1)"
    by (cases "ensureSlagentDir (root st) fs")
  then have "dirs_added fs fs1"
    unfolding ensureSlagentDir_def by (rule ensure_dirs_added)
  with False e show "init st fs = (r, st', fs') \<Longrightarrow> ?thesis"
    by (cases r1) (auto simp: init_def)
qed

lemma fs_readFile_content:
  "fs_readFile fs p = (case file_content fs p of None \<Rightarrow> fs_readFile fs p | Some c \<Rightarrow> Inr c)"
  "file_content fs p = None \<Longrightarrow> \<exists>e. fs_readFile fs p = Inl e"
  by (auto simp: fs_readFile_def file_content_def split: option.splits node.splits)

lemma parse_no_lines:
  "parse_lines (filter (\<lambda>line. trim line \<noteq> []) (split_on CHR 0x0A [])) = Inr []"
  by (simp add: trim_def)

lemma getSessionEvents_log_text:
  "getSessionEvents sid st fs =
     (case parse_lines (filter (\<lambda>line. trim line \<noteq> [])
                          (split_on CHR 0x0A (log_text fs (event_file st sid)))) of
        Inl OutsideModel \<Rightarrow> Inl OutsideModel
      | Inl e \<Rightarrow> Inr []
      | Inr events \<Rightarrow> Inr events)"
proof (cases "file_content fs (event_file st sid)")
  case None
  then obtain e where "fs_readFile fs (event_file st sid) = Inl e"
    using fs_readFile_content(2) by blast
  with None show ?thesis
    by (simp add: getSessionEvents_def log_text_def trim_def)
next
  case (Some c)
  then have "fs_readFile fs (event_file st sid) = Inr c"
    using fs_readFile_content(1) [of fs "event_file st sid"] by simp
  with Some show ?thesis
    by (simp add: getSessionEvents_def log_text_def)
qed

lemma getSessionSummary_content:
  "getSessionSummary sid st fs =
     (case file_content fs (summary_file st sid) of
        None \<Rightarrow> Inr None
      | Some content \<Rightarrow>
          (case JSON_parse_summary content of
             Inl OutsideModel \<Rightarrow> Inl OutsideModel
           | Inl e \<Rightarrow> Inr None
           | Inr summary \<Rightarrow> Inr (Some summary)))"
proof (cases "file_content fs (summary_file st sid)")
  case None
  then obtain e where "fs_readFile fs (summary_file st sid) = Inl e"
    using fs_readFile_content(2) by blast
  with None show ?thesis by (simp add: getSessionSummary_def)
next
  case (Some c)
  then have "fs_readFile fs (summary_file st sid) = Inr c"
    using fs_readFile_content(1) [of fs "summary_file st sid"] by simp
  with Some show ?thesis by (simp add: getSessionSummary_def)
qed

lemma fs_writeFile_content:
  "fs_writeFile appending fs p data = Inr fs' \<Longrightarrow>
   file_content fs' =
     (file_content fs)(p \<mapsto> (if appending then log_text fs p @ data else data))"
  by (rule ext)
    (auto simp: fs_writeFile_def file_content_def log_text_def
      split: option.splits node.splits if_splits)

lemma appendEvent_content:
  assumes "appendEvent e st fs = (r, st', fs')"
  shows "root st' = root st"
    and "r = Inr () \<Longrightarrow>
         file_content fs' =
           (file_content fs)(event_file st (sessionId_of e) \<mapsto>
              log_text fs (event_file st (sessionId_of e)) @ JSON_stringify_event e @ [CHR 0x0A])"
    and "r \<noteq> Inr () \<Longrightarrow> file_content fs' = file_content fs"
proof -
  obtain r1 st1 fs1 where i: "init st fs = (r1, st1, fs1)"
    by (cases "init st fs") auto
  from init_added [OF i] have a: "dirs_added fs fs1" and rt: "root st1 = root st" by simp_all
  from dirs_added_content [OF a] have c: "file_content fs1 = file_content fs" .
  then have lt: "log_text fs1 = log_text fs" by (auto simp: log_text_def)
  have ef: "event_file st1 = event_file st" using rt by (auto simp: event_file_def)
  show "root st' = root st"
    using assms i rt
    by (cases r1) (auto simp: appendEvent_def Let_def split: sum.splits)
  show "file_content fs' =
           (file_content fs)(event_file st (sessionId_of e) \<mapsto>
              log_text fs (event_file st (sessionId_of e)) @ JSON_stringify_event e @ [CHR 0x0A])"
    if "r = Inr ()"
    using assms i that c lt ef fs_writeFile_content [of True fs1 "event_file st (sessionId_of e)"
        "JSON_stringify_event e @ [CHR 0x0A]"]
    by (cases r1) (auto simp: appendEvent_def Let_def split: sum.splits)
  show "file_content fs' = file_content fs" if "r \<noteq> Inr ()"
    using assms i that c
    by (cases r1) (auto simp: appendEvent_def Let_def split: sum.splits)
qed

lemma append_all_log:
  "append_all es st fs = (Inr (), st', fs') \<Longrightarrow> \<forall>e \<in> set es. sessionId_of e = sid \<Longrightarrow>
   root st' = root st \<and>
   log_text fs' (event_file st sid) = log_text fs (event_file st sid) @ event_lines es"
proof (induction es arbitrary: st fs)
  case Nil
  then show ?case by (simp add: event_lines_def)
next
  case (Cons e es)
  obtain r1 st1 fs1 where a: "appendEvent e st fs = (r1, st1, fs1)"
    by (cases "appendEvent e st fs") auto
  with Cons.prems(1) have r1: "r1 = Inr ()" and rest: "append_all es st1 fs1 = (Inr (), st', fs')"
    by (auto split: sum.splits)
  from appendEvent_content(1,2) [OF a] r1 Cons.prems(2)
  have rt: "root st1 = root st"
    and c: "log_text fs1 (event_file st sid) =
              log_text fs (event_file st sid) @ JSON_stringify_event e @ [CHR 0x0A]"
    by (simp_all add: log_text_def)
  have ef: "event_file st1 = event_file st" using rt by (auto simp: event_file_def)
  from Cons.IH [OF rest] Cons.prems(2) rt c ef show ?case
    by (simp add: event_lines_def)
qed

text \<open>
  C4. When the events of a list, all of one session, have been appended by \<open>appendEvent\<close>
  one after the other and every call returned, \<open>getSessionEvents\<close> for that session returns
  exactly these events, in the order of the calls, when the session had no event file
  before; and when its log held the lines of earlier events, it returns those followed by
  the new ones.
\<close>

theorem appended_events_read_back:
  "(nodes fs (event_file st sid) = None \<and> (\<forall>e \<in> set es. sessionId_of e = sid) \<and>
    append_all es st fs = (Inr (), st', fs') \<longrightarrow>
      getSessionEvents sid st' fs' = Inr es)
   \<and> (log_text fs (event_file st sid) = event_lines es0 \<and> (\<forall>e \<in> set es. sessionId_of e = sid) \<and>
      append_all es st fs = (Inr (), st', fs') \<longrightarrow>
      getSessionEvents sid st' fs' = Inr (es0 @ es))"
proof -
  have general: "getSessionEvents sid st' fs' = Inr (es0 @ es)"
    if "log_text fs (event_file st sid) = event_lines es0"
      and "\<forall>e \<in> set es. sessionId_of e = sid"
      and "append_all es st fs = (Inr (), st', fs')" for es0
  proof -
    from append_all_log [OF that(3,2)] that(1)
    have rt: "root st' = root st"
      and "log_text fs' (event_file st sid) = event_lines (es0 @ es)"
      by (simp_all add: event_lines_append)
    moreover have "event_file st' = event_file st" using rt by (auto simp: event_file_def)
    ultimately show ?thesis
      by (simp add: getSessionEvents_log_text read_back_lines)
  qed
  have "log_text fs (event_file st sid) = event_lines []"
    if "nodes fs (event_file st sid) = None"
    using that by (simp add: log_text_def file_content_def event_lines_def)
  with general [of "[]"] general [of es0] show ?thesis by auto
qed

lemma two_events_appended: "fst (append_all two_events new_store fresh_home) = Inr ()"
  by code_simp

theorem appended_events_read_back_witness:
  "fst (append_all two_events new_store fresh_home) = Inr () \<and>
   getSessionEvents ''s1''
     (fst (snd (append_all two_events new_store fresh_home)))
     (snd (snd (append_all two_events new_store fresh_home))) = Inr two_events"
proof -
  have ok: "fst (append_all two_events new_store fresh_home) = Inr ()"
    by (rule two_events_appended)
  then have run: "append_all two_events new_store fresh_home =
      (Inr (), fst (snd (append_all two_events new_store fresh_home)),
       snd (snd (append_all two_events new_store fresh_home)))"
    by (metis prod.collapse)
  have fresh: "nodes fresh_home (event_file new_store ''s1'') = None"
    by (simp add: fresh_home_def new_store_def event_file_def path_join_def path_normalize_def)
  have ids: "\<forall>e \<in> set two_events. sessionId_of e = ''s1''"
    by (simp add: two_events_def)
  from appended_events_read_back [of fresh_home new_store "''s1''" two_events
      "fst (snd (append_all two_events new_store fresh_home))"
      "snd (snd (append_all two_events new_store fresh_home))" "[]"] run fresh ids ok
  show ?thesis by blast
qed

section \<open>What an append leaves alone (C10)\<close>

lemma split_on_nonempty: "split_on c xs \<noteq> []"
  by (induction xs) (auto split: list.splits)

lemma split_on_none: "c \<notin> set xs \<Longrightarrow> split_on c xs = [xs]"
  by (induction xs) auto

lemma split_on_append: "split_on c (xs @ c # ys) = split_on c xs @ split_on c ys"
proof (induction xs)
  case Nil
  then show ?case by simp
next
  case (Cons x xs)
  obtain w ws where w: "split_on c xs = w # ws"
    using split_on_nonempty [of c xs] by (cases "split_on c xs") auto
  with Cons show ?case by simp
qed

lemma normalizeString_snoc:
  "x \<noteq> [] \<Longrightarrow> x \<noteq> ''.'' \<Longrightarrow> x \<noteq> ''..'' \<Longrightarrow>
   normalizeString a res (segs @ [x]) = normalizeString a res segs @ [x]"
  by (induction segs arbitrary: res a) simp_all

lemma join_with_snoc:
  "join_with sep (xs @ [x]) = (if xs = [] then x else join_with sep xs @ sep @ x)"
proof (induction xs)
  case Nil
  then show ?case by simp
next
  case (Cons y ys)
  then show ?case by (cases ys) simp_all
qed

lemma path_join_tail:
  assumes d: "d \<noteq> []" and x: "CHR ''/'' \<notin> set x" "x \<noteq> []" "x \<noteq> ''.''" "x \<noteq> ''..''"
    and pre: "pre = [] \<or> last pre = CHR ''/''"
  shows "path_join [r, d, pre @ x] = path_prefix r d pre @ x"
proof -
  define hd0 where "hd0 = joined_head r d"
  define H where "H = butlast (hd0 @ ''/'' @ pre)"
  have head: "hd0 \<noteq> []" using d by (simp add: hd0_def joined_head_def)
  have H: "hd0 @ ''/'' @ pre = H @ ''/''"
  proof (cases "pre = []")
    case True
    then show ?thesis by (simp add: H_def)
  next
    case False
    with pre have "last pre = CHR ''/''" by simp
    with False have "pre = butlast pre @ ''/''"
      using append_butlast_last_id [of pre] by simp
    then have "hd0 @ ''/'' @ pre = (hd0 @ ''/'' @ butlast pre) @ ''/''"
      by simp
    then show ?thesis unfolding H_def by (simp only: butlast_snoc)
  qed
  have joined: "join_with ''/'' (filter (\<lambda>a. a \<noteq> []) [r, d, pre @ x]) = H @ ''/'' @ x"
  proof -
    have "join_with ''/'' (filter (\<lambda>a. a \<noteq> []) [r, d, pre @ x]) = (hd0 @ ''/'' @ pre) @ x"
      using d x by (simp add: hd0_def joined_head_def)
    then show ?thesis by (simp only: H) simp
  qed
  define joined where "joined = H @ ''/'' @ x"
  have joined_alt: "joined = (hd0 @ ''/'' @ pre) @ x"
    by (simp only: H joined_def) simp
  have hd_joined: "hd joined = hd hd0"
    using head by (simp add: joined_alt)
  have joined_ne: "joined \<noteq> []" by (simp add: joined_def)
  have "last x \<noteq> CHR ''/''"
  proof
    assume e: "last x = CHR ''/''"
    have "last x \<in> set x" by (rule last_in_set) (rule x(2))
    then have "CHR ''/'' \<in> set x" by (simp only: e)
    with x(1) show False by simp
  qed
  then have last_joined: "last joined \<noteq> CHR ''/''"
    using x by (simp add: joined_def last_append)
  have segs: "split_on CHR ''/'' joined = split_on CHR ''/'' H @ [x]"
    using split_on_append [of "CHR ''/''" H x] x by (simp add: split_on_none joined_def)
  define R where "R = normalizeString (\<not> (hd hd0 = CHR ''/'')) [] (split_on CHR ''/'' H)"
  have norm: "normalizeString (\<not> (hd hd0 = CHR ''/'')) [] (split_on CHR ''/'' joined) = R @ [x]"
    by (simp only: segs R_def normalizeString_snoc [OF x(2,3,4)])
  have body: "join_with ''/'' (R @ [x]) = (if R = [] then x else join_with ''/'' R @ ''/'' @ x)"
    by (rule join_with_snoc)
  have body_ne: "join_with ''/'' (R @ [x]) \<noteq> []"
    using x by (simp add: body)
  have "path_normalize joined =
      (if hd hd0 = CHR ''/'' then ''/'' else []) @ join_with ''/'' (R @ [x])"
    unfolding path_normalize_def Let_def hd_joined norm
    using body_ne last_joined joined_ne by simp
  moreover have "path_prefix r d pre =
      (if hd hd0 = CHR ''/'' then ''/'' else []) @ (if R = [] then [] else join_with ''/'' R @ ''/'')"
    by (simp add: path_prefix_def Let_def hd0_def H_def R_def)
  moreover have "path_join [r, d, pre @ x] = path_normalize joined"
    using joined joined_ne by (simp add: path_join_def Let_def joined_def)
  ultimately show ?thesis
    by (simp add: body)
qed

lemma last_segment:
  obtains pre y where "s = pre @ y" and "CHR ''/'' \<notin> set y" and "pre = [] \<or> last pre = CHR ''/''"
proof -
  let ?P = "\<lambda>c. c \<noteq> CHR ''/''"
  let ?y = "rev (takeWhile ?P (rev s))"
  let ?pre = "rev (dropWhile ?P (rev s))"
  have "rev s = takeWhile ?P (rev s) @ dropWhile ?P (rev s)"
    by simp
  then have "rev (rev s) = rev (takeWhile ?P (rev s) @ dropWhile ?P (rev s))"
    by (simp only:)
  then have "s = ?pre @ ?y"
    by (simp only: rev_append rev_rev_ident)
  moreover have "CHR ''/'' \<notin> set ?y"
    by (auto dest: set_takeWhileD)
  moreover have "?pre = [] \<or> last ?pre = CHR ''/''"
  proof (cases "dropWhile ?P (rev s)")
    case Nil
    then show ?thesis by simp
  next
    case (Cons c cs)
    then have "\<not> ?P c" using hd_dropWhile [of ?P "rev s"] by auto
    with Cons show ?thesis by simp
  qed
  ultimately show ?thesis using that by blast
qed

lemma event_file_slash_free:
  "CHR ''/'' \<notin> set sid \<Longrightarrow> event_file st sid = path_prefix (root st) ''events'' [] @ sid @ ''.jsonl''"
  using path_join_tail [of "''events''" "sid @ ''.jsonl''" "[]" "root st"]
  by (simp add: event_file_def)

lemma event_file_inj:
  "CHR ''/'' \<notin> set s \<Longrightarrow> CHR ''/'' \<notin> set t \<Longrightarrow> event_file st s = event_file st t \<Longrightarrow> s = t"
  by (simp add: event_file_slash_free)

lemma event_file_last: "last (event_file st s) = CHR ''l''"
proof -
  obtain pre y where s: "s = pre @ y" and y: "CHR ''/'' \<notin> set y"
    and pre: "pre = [] \<or> last pre = CHR ''/''"
    by (rule last_segment)
  have "path_join [root st, ''events'', pre @ (y @ ''.jsonl'')]
      = path_prefix (root st) ''events'' pre @ (y @ ''.jsonl'')"
    using y pre by (intro path_join_tail) auto
  then show ?thesis by (simp add: event_file_def s)
qed

lemma summary_file_last: "last (summary_file st s) = CHR ''n''"
proof -
  obtain pre y where s: "s = pre @ y" and y: "CHR ''/'' \<notin> set y"
    and pre: "pre = [] \<or> last pre = CHR ''/''"
    by (rule last_segment)
  have "path_join [root st, ''sessions'', pre @ (y @ ''.json'')]
      = path_prefix (root st) ''sessions'' pre @ (y @ ''.json'')"
    using y pre by (intro path_join_tail) auto
  then show ?thesis by (simp add: summary_file_def s)
qed

lemma event_file_not_summary_file: "event_file st s \<noteq> summary_file st t"
proof
  assume "event_file st s = summary_file st t"
  then have "last (event_file st s) = last (summary_file st t)" by simp
  then show False by (simp add: event_file_last summary_file_last)
qed

lemma log_text_frame:
  assumes "appendEvent e st fs = (r, st', fs')" and "p \<noteq> event_file st (sessionId_of e)"
  shows "file_content fs' p = file_content fs p"
proof (cases "r = Inr ()")
  case True
  from appendEvent_content(2) [OF assms(1) True] assms(2) show ?thesis by simp
next
  case False
  from appendEvent_content(3) [OF assms(1) False] show ?thesis by simp
qed

lemma getSessionEvents_frame:
  assumes "appendEvent e st fs = (r, st', fs')"
    and "event_file st s \<noteq> event_file st (sessionId_of e)"
  shows "getSessionEvents s st' fs' = getSessionEvents s st fs"
proof -
  from appendEvent_content(1) [OF assms(1)] have "event_file st' = event_file st"
    by (auto simp: event_file_def)
  with log_text_frame [OF assms] show ?thesis
    by (simp add: getSessionEvents_log_text log_text_def)
qed

lemma getSessionSummary_frame:
  assumes "appendEvent e st fs = (r, st', fs')"
  shows "getSessionSummary s st' fs' = getSessionSummary s st fs"
proof -
  from appendEvent_content(1) [OF assms] have "summary_file st' = summary_file st"
    by (auto simp: summary_file_def)
  moreover have "summary_file st s \<noteq> event_file st (sessionId_of e)"
    using event_file_not_summary_file [of st "sessionId_of e" s] by auto
  ultimately show ?thesis
    using log_text_frame [OF assms, of "summary_file st s"]
    by (simp add: getSessionSummary_content)
qed

text \<open>
  C10 (as amended). A call of \<open>appendEvent\<close>, whether it returns or throws, leaves
  \<open>getSessionEvents(s)\<close> as it was for every session id \<open>s\<close> whose event file is another path
  than the event file of the appended event; two different ids that contain no path separator
  have different event files; and \<open>getSessionSummary(s)\<close> is left as it was for every
  \<open>s\<close>.
\<close>

theorem appendEvent_frame:
  "appendEvent e st fs = (r, st', fs') \<longrightarrow>
     (event_file st s \<noteq> event_file st (sessionId_of e) \<longrightarrow>
        getSessionEvents s st' fs' = getSessionEvents s st fs)
     \<and> (CHR ''/'' \<notin> set s \<and> CHR ''/'' \<notin> set (sessionId_of e) \<and> s \<noteq> sessionId_of e \<longrightarrow>
        event_file st s \<noteq> event_file st (sessionId_of e) \<and>
        getSessionEvents s st' fs' = getSessionEvents s st fs)
     \<and> getSessionSummary s st' fs' = getSessionSummary s st fs"
  using getSessionEvents_frame [of e st fs r st' fs' s] getSessionSummary_frame [of e st fs r st' fs' s]
    event_file_inj [of s "sessionId_of e" st]
  by blast

theorem appendEvent_frame_witness:
  "fst (appendEvent other_event (fst (snd (append_all two_events new_store fresh_home)))
          (snd (snd (append_all two_events new_store fresh_home)))) = Inr ()
   \<and> getSessionEvents ''s1''
        (fst (snd (appendEvent other_event (fst (snd (append_all two_events new_store fresh_home)))
          (snd (snd (append_all two_events new_store fresh_home))))))
        (snd (snd (appendEvent other_event (fst (snd (append_all two_events new_store fresh_home)))
          (snd (snd (append_all two_events new_store fresh_home))))))
      = getSessionEvents ''s1'' (fst (snd (append_all two_events new_store fresh_home)))
          (snd (snd (append_all two_events new_store fresh_home)))
   \<and> getSessionEvents ''s1'' (fst (snd (append_all two_events new_store fresh_home)))
          (snd (snd (append_all two_events new_store fresh_home))) = Inr two_events"
proof -
  define st1 where "st1 = fst (snd (append_all two_events new_store fresh_home))"
  define fs1 where "fs1 = snd (snd (append_all two_events new_store fresh_home))"
  define Y where "Y = appendEvent other_event st1 fs1"
  have run: "appendEvent other_event st1 fs1 = (fst Y, fst (snd Y), snd (snd Y))"
    by (simp add: Y_def)
  have ids: "CHR ''/'' \<notin> set ''s1'' \<and> CHR ''/'' \<notin> set (sessionId_of other_event)
      \<and> ''s1'' \<noteq> sessionId_of other_event"
    by (simp add: other_event_def)
  from appendEvent_frame [of other_event st1 fs1 "fst Y" "fst (snd Y)" "snd (snd Y)" "''s1''"] run ids
  have same: "getSessionEvents ''s1'' (fst (snd Y)) (snd (snd Y)) = getSessionEvents ''s1'' st1 fs1"
    by blast
  have ok: "fst (appendEvent other_event (fst (snd (append_all two_events new_store fresh_home)))
          (snd (snd (append_all two_events new_store fresh_home)))) = Inr ()"
    by code_simp
  have before: "getSessionEvents ''s1'' (fst (snd (append_all two_events new_store fresh_home)))
          (snd (snd (append_all two_events new_store fresh_home))) = Inr two_events"
    by code_simp
  from same ok before show ?thesis
    by (simp add: Y_def st1_def fs1_def)
qed

text \<open>
  The claim as written fails for two ids that \<open>path.join\<close> normalises to one path: an event
  of session \<open>y/../x\<close> is appended to the file of session \<open>x\<close>.
\<close>

theorem appendEvent_alias_counterexample:
  "''x'' \<noteq> sessionId_of alias_event
   \<and> getSessionEvents ''x'' new_store fresh_home = Inr []
   \<and> getSessionEvents ''x''
        (fst (snd (appendEvent alias_event new_store fresh_home)))
        (snd (snd (appendEvent alias_event new_store fresh_home))) = Inr [alias_event]"
  by code_simp

section \<open>The commit-message signal (C8)\<close>

lemma startsWith_includes: "startsWith s p \<Longrightarrow> str_includes s p"
  by (cases s) (auto elim: startsWith.elims)

lemma line_signals:
  "(let lower = toLowerCase line
    in (if str_includes lower ''revert'' \<or> startsWith lower ''revert ''
        then [UserInterventionEvent sid ts revert (Some (trim line))] else [])
       @ (if str_includes lower ''fixup'' \<or> startsWith lower ''fixup!''
          then [UserInterventionEvent sid ts fixup (Some (trim line))] else []))
   = subject_signals sid ts line"
proof -
  have "startsWith (toLowerCase line) ''revert '' \<Longrightarrow> str_includes (toLowerCase line) ''revert''"
    by (cases "toLowerCase line" rule: list.exhaust)
       (auto elim!: startsWith.elims split: if_splits)
  moreover
  have "startsWith (toLowerCase line) ''fixup!'' \<Longrightarrow> str_includes (toLowerCase line) ''fixup''"
    by (cases "toLowerCase line" rule: list.exhaust)
       (auto elim!: startsWith.elims split: if_splits)
  ultimately show ?thesis
    by (auto simp: subject_signals_def Let_def)
qed

lemma checkGitSignals_commits:
  assumes "\<forall>s \<in> set subjects. CHR 0x0A \<notin> set s"
  shows "checkGitSignals (git_log_20 (Repository subjects)) sid ts
     = concat (map (subject_signals sid ts) (take 20 subjects))"
proof -
  have "\<forall>s \<in> set (take 20 subjects). CHR 0x0A \<notin> set s"
    using assms by (auto dest: in_set_takeD)
  then have "split_on CHR 0x0A (concat (map (\<lambda>s. s @ [CHR 0x0A]) (take 20 subjects)))
      = take 20 subjects @ [[]]"
    by (rule split_on_lines)
  moreover have "subject_signals sid ts [] = []"
    by (simp add: subject_signals_def toLowerCase_def)
  ultimately show ?thesis
    by (simp add: checkGitSignals_def git_log_20_def line_signals)
qed

lemma checkGitSignals_no_git: "checkGitSignals (git_log_20 NoRepository) sid ts = []"
  by (simp add: checkGitSignals_def git_log_20_def)

text \<open>
  C8. In a repository whose two most recent commit subjects are \<open>squash! tidy up\<close> and
  \<open>fixup! parser\<close>, \<open>checkGitSignals\<close> returns one event, for the fixup commit: the subject lines
  are searched for \<open>revert\<close> and \<open>fixup\<close> only, so a squash commit gives no event.
\<close>

theorem checkGitSignals_squash_missed:
  "checkGitSignals (git_log_20 (Repository [''squash! tidy up'', ''fixup! parser''])) ''s1'' 1000
     = [UserInterventionEvent ''s1'' 1000 fixup (Some ''fixup! parser'')]"
  by code_simp


section \<open>Sealing a session\<close>

subsection \<open>What a successful seal does\<close>

lemma and_then_Inr:
  assumes "and_then m f w = (Inr y, w')"
  obtains x w1 where "m w = (Inr x, w1)" and "f x w1 = (Inr y, w')"
  using assms by (auto simp: and_then_def split: prod.splits sum.splits)

lemma and_then_returns: "and_then (returns x) f w = f x w"
  by (simp add: and_then_def returns_def)

lemma and_then_now:
  "and_then (now env) f w = f (clock env (clock_reads w)) (w\<lparr>clock_reads := Suc (clock_reads w)\<rparr>)"
  by (simp add: and_then_def now_def)

lemma and_then_emit: "and_then (emit ev) f w = f () (w\<lparr>emitted := emitted w @ [ev]\<rparr>)"
  by (simp add: and_then_def emit_def)

lemma and_then_sessions_set:
  "and_then (sessions_set key s) f w = f () (w\<lparr>sessions := AList.update key s (sessions w)\<rparr>)"
  by (simp add: and_then_def sessions_set_def)

lemma and_then_sessions_delete:
  "and_then (sessions_delete key) f w = f () (w\<lparr>sessions := AList.delete key (sessions w)\<rparr>)"
  by (simp add: and_then_def sessions_delete_def)

lemma and_then_lastActive_set:
  "and_then (lastActive_set key b) f w = f () (w\<lparr>lastActive := (lastActive w)(key \<mapsto> b)\<rparr>)"
  by (simp add: and_then_def lastActive_set_def)

lemma store_appendEvent_Inr:
  "store_appendEvent e w = (Inr u, w') \<Longrightarrow> same_watcher w w' \<and> writes w' = writes w @ [Appended e]"
  by (auto simp: store_appendEvent_def same_watcher_def split: prod.splits sum.splits)

lemma store_saveSessionSummary_Inr:
  "store_saveSessionSummary s w = (Inr u, w') \<Longrightarrow> same_watcher w w' \<and> writes w' = writes w @ [Saved s]"
  by (auto simp: store_saveSessionSummary_def same_watcher_def split: prod.splits sum.splits)

lemma append_each_Inr:
  "for_each (\<lambda>e. store_appendEvent (g e)) es w = (Inr u, w') \<Longrightarrow>
     same_watcher w w' \<and> writes w' = writes w @ map (\<lambda>e. Appended (g e)) es"
proof (induction es arbitrary: w)
  case Nil
  then show ?case by (simp add: returns_def same_watcher_def)
next
  case (Cons e es)
  from Cons.prems obtain x w1 where a: "store_appendEvent (g e) w = (Inr x, w1)"
    and rest: "for_each (\<lambda>e. store_appendEvent (g e)) es w1 = (Inr u, w')"
    by (auto elim: and_then_Inr)
  from store_appendEvent_Inr [OF a] Cons.IH [OF rest] show ?case
    by (simp add: same_watcher_def)
qed

lemma append_signals_Inr:
  assumes "append_signals env session (cwd session) events w = (Inr n, w')"
  shows "n = length (seal_signals env w session events)"
    and "writes w' = writes w @ map Appended (seal_signals env w session events)"
    and "clock_reads w' = Suc (Suc (clock_reads w))"
    and "sessions w' = sessions w" and "lastActive w' = lastActive w"
    and "lastPollTime w' = lastPollTime w" and "uuid_reads w' = uuid_reads w"
    and "emitted w' = emitted w" and "enrichers w' = enrichers w"
proof -
  let ?sid = "sessionId session"
  define git where "git = checkGitSignals (git_log env (cwd session)) ?sid (clock env (clock_reads w))"
  define manual where "manual = detectManualEdits (project_files env) (cwd session) (files session)
            (clock env (Suc (clock_reads w)) - 60000)"
  define timing where "timing = detectTimingSignals events"
  let ?w1 = "w\<lparr>clock_reads := Suc (clock_reads w)\<rparr>"
  from assms obtain u2 w2
    where g: "for_each (\<lambda>sig. store_appendEvent (with_sessionId ?sid sig)) git ?w1 = (Inr u2, w2)"
      and r2: "and_then (now env) (\<lambda>t1.
     and_then (returns (detectManualEdits (project_files env) (cwd session) (files session) (t1 - 60000)))
       (\<lambda>manualEdits.
     and_then (for_each (\<lambda>edit. store_appendEvent (with_sessionId ?sid edit)) manualEdits)
       (\<lambda>u.
     and_then (returns (detectTimingSignals events)) (\<lambda>timingSignals.
     and_then (for_each (\<lambda>sig. store_appendEvent sig) timingSignals) (\<lambda>u.
     returns (length git + length manualEdits + length timingSignals)))))) w2 = (Inr n, w')"
    unfolding append_signals_def and_then_now and_then_returns git_def
    by (erule and_then_Inr)
  from append_each_Inr [OF g] have k2: "same_watcher ?w1 w2"
    and wr2: "writes w2 = writes w @ map (\<lambda>e. Appended (with_sessionId ?sid e)) git"
    by simp_all
  then have c2: "clock_reads w2 = Suc (clock_reads w)" by (simp add: same_watcher_def)
  let ?w3 = "w2\<lparr>clock_reads := Suc (clock_reads w2)\<rparr>"
  from r2 obtain u4 w4
    where m: "for_each (\<lambda>edit. store_appendEvent (with_sessionId ?sid edit)) manual ?w3 = (Inr u4, w4)"
      and r4: "and_then (for_each (\<lambda>sig. store_appendEvent sig) timing) (\<lambda>u.
     returns (length git + length manual + length timing)) w4 = (Inr n, w')"
    unfolding and_then_now and_then_returns manual_def timing_def c2
    by (erule and_then_Inr)
  from append_each_Inr [OF m] have k4: "same_watcher ?w3 w4"
    and wr4: "writes w4 = writes w2 @ map (\<lambda>e. Appended (with_sessionId ?sid e)) manual"
    by simp_all
  from r4 obtain u5 where t: "for_each (\<lambda>sig. store_appendEvent sig) timing w4 = (Inr u5, w')"
    and n: "n = length git + length manual + length timing"
    by (auto elim!: and_then_Inr simp: returns_def)
  from append_each_Inr [OF t] have k5: "same_watcher w4 w'"
    and wr5: "writes w' = writes w4 @ map Appended timing"
    by simp_all
  have sig: "seal_signals env w session events
      = map (with_sessionId ?sid) git @ map (with_sessionId ?sid) manual @ timing"
    by (simp add: seal_signals_def git_def manual_def timing_def)
  show "n = length (seal_signals env w session events)" by (simp add: sig n)
  show "writes w' = writes w @ map Appended (seal_signals env w session events)"
    by (simp add: sig wr5 wr4 wr2)
  from k5 k4 k2 c2 show "clock_reads w' = Suc (Suc (clock_reads w))"
    and "sessions w' = sessions w" and "lastActive w' = lastActive w"
    and "lastPollTime w' = lastPollTime w" and "uuid_reads w' = uuid_reads w"
    and "emitted w' = emitted w" and "enrichers w' = enrichers w"
    by (simp_all add: same_watcher_def)
qed

lemma sealSession_absent:
  "map_of (sessions w) key = None \<Longrightarrow> sealSession env key w = (Inr None, w)"
  by (simp add: sealSession_def)

lemma sealSession_Inr:
  assumes "sealSession env key w = (Inr r, w')" and "map_of (sessions w) key = Some session"
  obtains events where "getSessionEvents (sessionId session) (store w) (store_files w) = Inr events"
    and "r = Some (sealed_summary env w session events)"
    and "sessions w' = AList.delete key (sessions w)"
    and "lastActive w' = lastActive w"
    and "lastPollTime w' = lastPollTime w"
    and "clock_reads w' = clock_reads w + 3"
    and "uuid_reads w' = uuid_reads w"
    and "emitted w' = emitted w"
    and "writes w' = writes w @ map Appended (seal_signals env w session events)
                      @ [Saved (sealed_summary env w session events)]"
proof -
  let ?sid = "sessionId session"
  define w1 where "w1 = (if cwd session \<in> set (enrichers w) then w
                          else w\<lparr>enrichers := enrichers w @ [cwd session]\<rparr>)"
  have e1: "getEnricher (cwd session) w = (Inr (cwd session), w1)"
    by (simp add: getEnricher_def w1_def)
  have w1: "sessions w1 = sessions w" "lastActive w1 = lastActive w" "lastPollTime w1 = lastPollTime w"
    "clock_reads w1 = clock_reads w" "uuid_reads w1 = uuid_reads w" "emitted w1 = emitted w"
    "writes w1 = writes w" "store w1 = store w" "store_files w1 = store_files w"
    by (simp_all add: w1_def)
  have sig1: "seal_signals env w1 session = seal_signals env w session"
    by (rule ext) (simp add: seal_signals_def w1)
  from assms e1 obtain events w2
    where e2: "store_getSessionEvents ?sid w1 = (Inr events, w2)"
      and r2: "and_then (append_signals env session (cwd session) events) (\<lambda>interventionCount.
          and_then (now env) (\<lambda>t.
          and_then (returns
              \<lparr> id' = ?sid,
                agent = agent' session,
                prompt = prompt' session,
                projectCwd = Some (cwd session),
                startedAt = startTime session,
                endedAt = t,
                outcome = compute_outcome events,
                filesChanged = dedupe (files session),
                interventions = int interventionCount,
                analyzed = False,
                reviewedEventCount = None \<rparr>) (\<lambda>summary.
          and_then (store_saveSessionSummary summary) (\<lambda>u.
          and_then (sessions_delete key) (\<lambda>u.
          returns (Some summary)))))) w2 = (Inr r, w')"
    by (auto simp: sealSession_def and_then_def [of "getEnricher (cwd session)"] elim: and_then_Inr)
  from e2 have w2: "w2 = w1" and evs: "getSessionEvents ?sid (store w) (store_files w) = Inr events"
    by (auto simp: store_getSessionEvents_def w1)
  from r2 obtain n w3 where e3: "append_signals env session (cwd session) events w1 = (Inr n, w3)"
    and r3: "and_then (store_saveSessionSummary
              \<lparr> id' = ?sid,
                agent = agent' session,
                prompt = prompt' session,
                projectCwd = Some (cwd session),
                startedAt = startTime session,
                endedAt = clock env (clock_reads w3),
                outcome = compute_outcome events,
                filesChanged = dedupe (files session),
                interventions = int n,
                analyzed = False,
                reviewedEventCount = None \<rparr>) (\<lambda>u.
          and_then (sessions_delete key) (\<lambda>u.
          returns (Some
              \<lparr> id' = ?sid,
                agent = agent' session,
                prompt = prompt' session,
                projectCwd = Some (cwd session),
                startedAt = startTime session,
                endedAt = clock env (clock_reads w3),
                outcome = compute_outcome events,
                filesChanged = dedupe (files session),
                interventions = int n,
                analyzed = False,
                reviewedEventCount = None \<rparr>))) (w3\<lparr>clock_reads := Suc (clock_reads w3)\<rparr>) = (Inr r, w')"
    unfolding w2
    apply -
    apply (erule and_then_Inr)
    apply (simp add: and_then_now and_then_returns)
    done
  note s3 = append_signals_Inr [OF e3, unfolded sig1 w1]
  have summary: "\<lparr> id' = ?sid,
                agent = agent' session,
                prompt = prompt' session,
                projectCwd = Some (cwd session),
                startedAt = startTime session,
                endedAt = clock env (clock_reads w3),
                outcome = compute_outcome events,
                filesChanged = dedupe (files session),
                interventions = int n,
                analyzed = False,
                reviewedEventCount = None \<rparr> = sealed_summary env w session events"
    by (simp add: sealed_summary_def s3)
  from r3 obtain u4 w4
    where e4: "store_saveSessionSummary (sealed_summary env w session events)
                 (w3\<lparr>clock_reads := Suc (clock_reads w3)\<rparr>) = (Inr u4, w4)"
      and fin: "r = Some (sealed_summary env w session events)"
        "w' = w4\<lparr>sessions := AList.delete key (sessions w4)\<rparr>"
    unfolding summary
    apply -
    apply (erule and_then_Inr)
    apply (auto simp: and_then_sessions_delete returns_def)
    done
  from store_saveSessionSummary_Inr [OF e4]
  have k4: "same_watcher (w3\<lparr>clock_reads := Suc (clock_reads w3)\<rparr>) w4"
    and wr4: "writes w4 = writes w3 @ [Saved (sealed_summary env w session events)]"
    by simp_all
  show ?thesis
  proof (rule that [OF evs fin(1)])
    from fin(2) k4 s3 show "sessions w' = AList.delete key (sessions w)"
      and "lastActive w' = lastActive w" and "lastPollTime w' = lastPollTime w"
      and "clock_reads w' = clock_reads w + 3" and "uuid_reads w' = uuid_reads w"
      and "emitted w' = emitted w"
      by (simp_all add: same_watcher_def)
    from fin(2) wr4 s3 show "writes w' = writes w @ map Appended (seal_signals env w session events)
                      @ [Saved (sealed_summary env w session events)]"
      by simp
  qed
qed

subsection \<open>The outcome in the specification's words\<close>

lemma compute_outcome_spec: "compute_outcome events = spec_outcome events"
proof -
  have f: "list_ex (\<lambda>e. case e of TestResultEvent sid ts fw p f s raw \<Rightarrow> f > 0 | _ \<Rightarrow> False)
             (filter (\<lambda>e. case e of TestResultEvent sid ts fw p f s raw \<Rightarrow> True | _ \<Rightarrow> False) events)
      = (\<exists>e \<in> set events. is_test_result e \<and> failing_result e)"
    by (auto simp: list_ex_iff is_test_result_def failing_result_def)
  have s: "list_ex (\<lambda>e. case e of TestResultEvent sid ts fw p f s raw \<Rightarrow> p > 0 \<and> f = 0 | _ \<Rightarrow> False)
             (filter (\<lambda>e. case e of TestResultEvent sid ts fw p f s raw \<Rightarrow> True | _ \<Rightarrow> False) events)
      = (\<exists>e \<in> set events. is_test_result e \<and> clean_pass e)"
    by (auto simp: list_ex_iff is_test_result_def clean_pass_def)
  show ?thesis
    unfolding compute_outcome_def Let_def f s spec_outcome_def by simp
qed

lemma spec_outcome_set: "set a = set b \<Longrightarrow> spec_outcome a = spec_outcome b"
  by (simp only: spec_outcome_def)

lemma spec_outcome_tests: "spec_outcome (filter is_test_result events) = spec_outcome events"
  by (auto simp: spec_outcome_def)

subsection \<open>A sealed session, evaluated\<close>

lemma sealed_of_Some:
  "sealed_of x = Some s \<Longrightarrow> x = (Inr (Some s), snd x)"
  by (cases x; cases "fst x") (auto simp: sealed_of_def)

lemma pass_and_fail_stored:
  "getSessionEvents (sessionId session0) (store (world_with pass_and_fail))
     (store_files (world_with pass_and_fail)) = Inr pass_and_fail"
  by code_simp

lemma pass_and_fail_sealed:
  "map_option outcome (sealed_of (sealSession env0 ''claude:/w/app'' (world_with pass_and_fail)))
     = Some partial"
  by code_simp

lemma pass_and_fail_summary:
  obtains summary where
    "sealSession env0 ''claude:/w/app'' (world_with pass_and_fail)
       = (Inr (Some summary), snd (sealSession env0 ''claude:/w/app'' (world_with pass_and_fail)))"
    and "outcome summary = partial"
proof -
  let ?x = "sealSession env0 ''claude:/w/app'' (world_with pass_and_fail)"
  from pass_and_fail_sealed obtain summary where s: "sealed_of ?x = Some summary"
    and o: "outcome summary = partial"
    by auto
  from sealed_of_Some [OF s] o that show ?thesis by blast
qed

subsection \<open>The outcome of a sealed session (C1)\<close>

text \<open>
  C1. The summary a seal returns records the outcome that the specification's rule gives for
  the events the store holds for the session: \<open>partial\<close> when some test result fails and some
  test result is a clean pass, otherwise \<open>failure\<close> when some test result fails, otherwise
  \<open>success\<close> when some test result is a clean pass, otherwise \<open>unknown\<close>. The rule gives the same
  outcome for any reordering of the events, and looks at the test results only.
\<close>

theorem sealed_outcome_from_test_results:
  "(sealSession env key w = (Inr (Some summary), w') \<longrightarrow>
      (\<exists>session events.
         map_of (sessions w) key = Some session
         \<and> getSessionEvents (sessionId session) (store w) (store_files w) = Inr events
         \<and> outcome summary = spec_outcome events))
   \<and> (mset events1 = mset events2 \<longrightarrow> spec_outcome events1 = spec_outcome events2)
   \<and> spec_outcome (filter is_test_result events1) = spec_outcome events1"
proof -
  have one: "\<exists>session events.
         map_of (sessions w) key = Some session
         \<and> getSessionEvents (sessionId session) (store w) (store_files w) = Inr events
         \<and> outcome summary = spec_outcome events"
    if run: "sealSession env key w = (Inr (Some summary), w')"
  proof (cases "map_of (sessions w) key")
    case None
    with run show ?thesis by (simp add: sealSession_def)
  next
    case (Some session)
    from sealSession_Inr [OF run Some] obtain events
      where "getSessionEvents (sessionId session) (store w) (store_files w) = Inr events"
        and "Some summary = Some (sealed_summary env w session events)"
      by blast
    with Some show ?thesis
      by (auto simp: sealed_summary_def compute_outcome_spec)
  qed
  have two: "spec_outcome events1 = spec_outcome events2" if "mset events1 = mset events2"
    using that by (intro spec_outcome_set mset_eq_setD)
  from one two show ?thesis by (simp add: spec_outcome_tests)
qed

theorem sealed_outcome_from_test_results_witness:
  "\<exists>summary w'. sealSession env0 ''claude:/w/app'' (world_with pass_and_fail) = (Inr (Some summary), w')
     \<and> outcome summary = partial
     \<and> (\<exists>session events. map_of (sessions (world_with pass_and_fail)) ''claude:/w/app'' = Some session
          \<and> getSessionEvents (sessionId session) (store (world_with pass_and_fail))
               (store_files (world_with pass_and_fail)) = Inr events
          \<and> outcome summary = spec_outcome events)"
proof -
  let ?x = "sealSession env0 ''claude:/w/app'' (world_with pass_and_fail)"
  obtain summary where run: "?x = (Inr (Some summary), snd ?x)" and o: "outcome summary = partial"
    by (rule pass_and_fail_summary)
  from sealed_outcome_from_test_results [of env0 "''claude:/w/app''" "world_with pass_and_fail"
      summary "snd ?x" "[]" "[]"] run
  have "\<exists>session events. map_of (sessions (world_with pass_and_fail)) ''claude:/w/app'' = Some session
          \<and> getSessionEvents (sessionId session) (store (world_with pass_and_fail))
               (store_files (world_with pass_and_fail)) = Inr events
          \<and> outcome summary = spec_outcome events"
    by blast
  with run o show ?thesis by blast
qed

subsection \<open>A clean pass together with a failure (C3)\<close>

text \<open>
  C3, amended. A session whose stored test results include a clean pass and a failing result
  is sealed with the outcome \<open>partial\<close>, whatever the counts and the order: so for a result with
  5 passed and 0 failed and one with 1 passed and 5 failed, in either order. A result with
  5 passed and 1 failed is not a clean pass: with 1 passed, 5 failed it gives \<open>failure\<close>.
\<close>

theorem clean_pass_and_failure_partial:
  "(sealSession env key w = (Inr (Some summary), w') \<and> map_of (sessions w) key = Some session
      \<and> getSessionEvents (sessionId session) (store w) (store_files w) = Inr events
      \<and> (\<exists>e \<in> set events. is_test_result e \<and> clean_pass e)
      \<and> (\<exists>e \<in> set events. is_test_result e \<and> failing_result e) \<longrightarrow>
      outcome summary = partial)
   \<and> compute_outcome [TestResultEvent sid t1 fw 5 0 sk raw, TestResultEvent sid t2 fw 1 5 sk raw] = partial
   \<and> compute_outcome [TestResultEvent sid t1 fw 1 5 sk raw, TestResultEvent sid t2 fw 5 0 sk raw] = partial
   \<and> compute_outcome [TestResultEvent sid t1 fw 1 5 sk raw, TestResultEvent sid t2 fw 5 1 sk raw] = failure"
proof -
  have one: "outcome summary = partial"
    if run: "sealSession env key w = (Inr (Some summary), w')"
      and s: "map_of (sessions w) key = Some session"
      and e: "getSessionEvents (sessionId session) (store w) (store_files w) = Inr events"
      and p: "\<exists>e \<in> set events. is_test_result e \<and> clean_pass e"
      and f: "\<exists>e \<in> set events. is_test_result e \<and> failing_result e"
  proof -
    from sealSession_Inr [OF run s] e
    have "summary = sealed_summary env w session events" by auto
    with p f show ?thesis
      by (simp add: sealed_summary_def compute_outcome_spec spec_outcome_def)
  qed
  then show ?thesis
    by (simp add: compute_outcome_def)
qed

theorem clean_pass_and_failure_partial_witness:
  "\<exists>summary w'. sealSession env0 ''claude:/w/app'' (world_with pass_and_fail) = (Inr (Some summary), w')
     \<and> getSessionEvents ''s1'' (store (world_with pass_and_fail)) (store_files (world_with pass_and_fail))
         = Inr pass_and_fail
     \<and> outcome summary = partial"
proof -
  let ?x = "sealSession env0 ''claude:/w/app'' (world_with pass_and_fail)"
  obtain summary where run: "?x = (Inr (Some summary), snd ?x)"
    by (rule pass_and_fail_summary)
  have k: "map_of (sessions (world_with pass_and_fail)) ''claude:/w/app'' = Some session0"
    by (simp add: world_with_def)
  note e = pass_and_fail_stored
  have p: "\<exists>e \<in> set pass_and_fail. is_test_result e \<and> clean_pass e"
    by (simp add: pass_and_fail_def is_test_result_def clean_pass_def)
  have f: "\<exists>e \<in> set pass_and_fail. is_test_result e \<and> failing_result e"
    by (simp add: pass_and_fail_def is_test_result_def failing_result_def)
  from clean_pass_and_failure_partial [of env0 "''claude:/w/app''" "world_with pass_and_fail" summary
      "snd ?x" session0 pass_and_fail] run k e p f
  have "outcome summary = partial" by blast
  with run e show ?thesis by (auto simp: session0_def)
qed

text \<open>
  The session of the claim's example, with results of 1 passed, 5 failed and of 5 passed,
  1 failed, is sealed with the outcome \<open>failure\<close>.
\<close>

theorem mixed_results_counterexample:
  "getSessionEvents ''s1'' (store (world_with mixed_results)) (store_files (world_with mixed_results))
     = Inr mixed_results
   \<and> map_option outcome (sealed_of (sealSession env0 ''claude:/w/app'' (world_with mixed_results)))
     = Some failure"
  by code_simp

subsection \<open>Sealing a key that is not tracked (C9)\<close>

text \<open>
  C9. \<open>sealSession\<close> on a key with no tracked session returns null and leaves the watcher and
  the store as they are. A seal that returns a summary removes the key, so that a second
  seal of the key is such a call; and the first one saved exactly that one summary.
\<close>

theorem seal_unknown_key_noop:
  "(map_of (sessions w) key = None \<longrightarrow> sealSession env key w = (Inr None, w))
   \<and> (sealSession env key w = (Inr (Some summary), w1) \<longrightarrow>
        map_of (sessions w1) key = None
        \<and> sealSession env key w1 = (Inr None, w1)
        \<and> filter is_saved (writes w1) = filter is_saved (writes w) @ [Saved summary])"
proof -
  have two: "map_of (sessions w1) key = None
        \<and> sealSession env key w1 = (Inr None, w1)
        \<and> filter is_saved (writes w1) = filter is_saved (writes w) @ [Saved summary]"
    if run: "sealSession env key w = (Inr (Some summary), w1)"
  proof (cases "map_of (sessions w) key")
    case None
    with run show ?thesis by (simp add: sealSession_def)
  next
    case (Some session)
    from sealSession_Inr [OF run Some] obtain events
      where s: "Some summary = Some (sealed_summary env w session events)"
        and d: "sessions w1 = AList.delete key (sessions w)"
        and wr: "writes w1 = writes w @ map Appended (seal_signals env w session events)
                      @ [Saved (sealed_summary env w session events)]"
      by blast
    from d have gone: "map_of (sessions w1) key = None"
      by (simp add: delete_conv')
    have "filter is_saved (map Appended (seal_signals env w session events)) = []"
      by (simp add: is_saved_def filter_empty_conv)
    with wr s have "filter is_saved (writes w1) = filter is_saved (writes w) @ [Saved summary]"
      by (simp add: is_saved_def)
    with gone show ?thesis by (simp add: sealSession_absent)
  qed
  then show ?thesis by (simp add: sealSession_absent)
qed

theorem seal_unknown_key_noop_witness:
  "sealSession env0 ''codex:/w/app'' (world_with pass_and_fail) = (Inr None, world_with pass_and_fail)
   \<and> (\<exists>summary w1. sealSession env0 ''claude:/w/app'' (world_with pass_and_fail) = (Inr (Some summary), w1)
        \<and> sealSession env0 ''claude:/w/app'' w1 = (Inr None, w1)
        \<and> filter is_saved (writes w1) = [Saved summary])"
proof -
  let ?x = "sealSession env0 ''claude:/w/app'' (world_with pass_and_fail)"
  obtain summary where run: "?x = (Inr (Some summary), snd ?x)"
    by (rule pass_and_fail_summary)
  have absent: "map_of (sessions (world_with pass_and_fail)) ''codex:/w/app'' = None"
    by (simp add: world_with_def)
  have none: "filter is_saved (writes (world_with pass_and_fail)) = []"
    by (simp add: world_with_def)
  from seal_unknown_key_noop [of "world_with pass_and_fail" "''codex:/w/app''" env0] absent
  have a: "sealSession env0 ''codex:/w/app'' (world_with pass_and_fail)
      = (Inr None, world_with pass_and_fail)"
    by blast
  from seal_unknown_key_noop [of "world_with pass_and_fail" "''claude:/w/app''" env0 summary "snd ?x"]
    run none
  have "sealSession env0 ''claude:/w/app'' (snd ?x) = (Inr None, snd ?x)
      \<and> filter is_saved (writes (snd ?x)) = [Saved summary]"
    by simp
  with a run show ?thesis by blast
qed


end
